theory Spec2Isabelle
  imports Complex_Main "HOL-Library.Multiset"
begin

section \<open>The foreground detector: data model\<close>

text \<open>
  The development embeds the Gaussian-mixture foreground detector of
  \<^verbatim>\<open>builtins/src/shared/foregroundDetector\<close>:
  \<^verbatim>\<open>WeightedGaussian.hpp\<close>, \<^verbatim>\<open>ForegroundDetectorFunctor.hpp\<close>,
  \<^verbatim>\<open>ForegroundDetectorImpl.cpp\<close> and \<^verbatim>\<open>foregroundDetector.cpp\<close>.

  The statistics type \<^verbatim>\<open>stat_type\<close> (float or double) is a type parameter \<open>'s\<close>, and
  its arithmetic is a parameter too: a record \<open>StatOps\<close> holds the constants 0 and 1, the
  operations \<^verbatim>\<open>+\<close>, \<^verbatim>\<open>-\<close>, \<^verbatim>\<open>*\<close>, \<^verbatim>\<open>/\<close>, the square root, the comparisons
  \<^verbatim>\<open><\<close>, \<^verbatim>\<open><=\<close>, \<^verbatim>\<open>==\<close> and the machine epsilon \<^verbatim>\<open>mfl_scalar::Eps<stat_type>(1.0)\<close>
  (whose header is not part of the sources). Every operation of the code on
  \<^verbatim>\<open>stat_type\<close> values is the corresponding field, applied in the order in which the
  code applies it (one application for every operator of the source: products and sums
  are not fused), so a statement proved for every \<open>StatOps\<close> holds for the rounded
  arithmetic of the machine, infinities and NaN included. Exact arithmetic is the
  instance \<open>real_ops\<close> on \<^typ>\<open>real\<close>; the statements that need it say so.

  Image samples are read after their \<^verbatim>\<open>static_cast<stat_type>\<close>, so an image is a
  function from addresses to statistics values; a pointer into a caller-supplied array
  is the array (a function on addresses) with an offset. \<^verbatim>\<open>mwSize\<close> values are natural
  numbers.

  Failures are values. \<^verbatim>\<open>VISION_ASSERT\<close> is \<^verbatim>\<open>assert\<close> unless the build defines
  \<^verbatim>\<open>NDEBUG\<close>, where it expands to nothing; the flag is a field of the build
  environment, together with the width of \<^verbatim>\<open>size_t\<close>, the \<^verbatim>\<open>max_size()\<close> of the two
  vector types and the outcome of the allocations of \<^verbatim>\<open>initialize\<close> and of
  \<^verbatim>\<open>setStates\<close>. The store constructed, or a model reserved, beyond its
  \<^verbatim>\<open>max_size()\<close> throws \<^verbatim>\<open>std::length_error\<close>, and a vector that the environment
  refuses to create ends the call with the exception of the allocation
  (\<^verbatim>\<open>std::bad_alloc\<close>). The small vectors allocated while a frame is processed (the
  mean of a new component and the component itself) are taken to be allocated: no
  statement below says that a step completes, except at concrete inputs in an
  environment where every allocation succeeds.

  The row-major entry points (\<^verbatim>\<open>runAlgorithmRowMajor\<close> and its callees) differ from
  the column-major ones only in the addressing of the channels of a pixel; the
  column-major ones are embedded.
\<close>

datatype error =
    AssertionFailed      \<comment> \<open>a failed \<^verbatim>\<open>assert\<close> (debug builds abort)\<close>
  | OutOfRange           \<comment> \<open>\<^verbatim>\<open>std::vector::at\<close> beyond the end\<close>
  | LengthError          \<comment> \<open>\<^verbatim>\<open>std::vector\<close> constructed with an impossible size\<close>
  | AllocationFailed     \<comment> \<open>a vector could not be created: \<^verbatim>\<open>std::bad_alloc\<close>, or
                              \<^verbatim>\<open>std::length_error\<close> for a request beyond a \<^verbatim>\<open>max_size()\<close>
                              that is no field of the environment\<close>
  | UndefinedBehavior    \<comment> \<open>unchecked access outside an object, signed overflow\<close>

text \<open>
  The allocations of \<^verbatim>\<open>initialize\<close>: the vector of dimensions with its copies (the
  parameters passed by value and \<^verbatim>\<open>mDims\<close>), the store of pixel models, and the
  \<^verbatim>\<open>reserve(numGaussians)\<close> of every pixel model; and the allocations of
  \<^verbatim>\<open>setStates\<close> for one pixel model: the components pushed into it with their mean and
  variance vectors.
\<close>

datatype allocation =
    DimsVector nat           \<comment> \<open>number of dimensions\<close>
  | ModelStore nat           \<comment> \<open>number of pixels\<close>
  | ModelCapacity nat nat    \<comment> \<open>number of pixels, components reserved in each model\<close>
  | ImportedModel nat nat    \<comment> \<open>components imported into a model, channels of each\<close>

record BuildEnv =
  NDEBUG :: bool
  SizeBits :: nat   \<comment> \<open>width of \<^verbatim>\<open>size_t\<close>, the type behind \<^verbatim>\<open>mwSize\<close>\<close>
  GMMVector_max_size :: nat   \<comment> \<open>\<^verbatim>\<open>max_size()\<close> of the vector of pixel models\<close>
  GaussianMixtureModel_max_size :: nat   \<comment> \<open>\<^verbatim>\<open>max_size()\<close> of a mixture model\<close>
  Allocates :: "allocation \<Rightarrow> bool"   \<comment> \<open>whether the vectors of the request are created\<close>

record 's StatOps =
  stat_zero :: 's                          \<comment> \<open>\<^verbatim>\<open>stat_type(0.0)\<close>\<close>
  stat_one :: 's                           \<comment> \<open>\<^verbatim>\<open>stat_type(1.0)\<close>\<close>
  stat_add :: "'s \<Rightarrow> 's \<Rightarrow> 's"
  stat_sub :: "'s \<Rightarrow> 's \<Rightarrow> 's"
  stat_mul :: "'s \<Rightarrow> 's \<Rightarrow> 's"
  stat_div :: "'s \<Rightarrow> 's \<Rightarrow> 's"
  stat_sqrt :: "'s \<Rightarrow> 's"
  stat_less :: "'s \<Rightarrow> 's \<Rightarrow> bool"
  stat_le :: "'s \<Rightarrow> 's \<Rightarrow> bool"
  stat_eq :: "'s \<Rightarrow> 's \<Rightarrow> bool"
  Eps :: 's                                \<comment> \<open>\<^verbatim>\<open>mfl_scalar::Eps<stat_type>(1.0)\<close>\<close>

record 's WeightedGaussian =
  mWeight :: 's
  mMean :: "'s list"
  mVariance :: "'s list"

type_synonym 's GaussianMixtureModel = "'s WeightedGaussian list"

type_synonym 's PixelModel = "'s GaussianMixtureModel \<times> nat"

type_synonym 's GMMVector = "'s PixelModel list"

record 's ForegroundDetectorFunctor =
  mGMMPtr :: bool   \<comment> \<open>\<^verbatim>\<open>mGMMPtr != NULL\<close>; when set it points to \<^verbatim>\<open>mGMMVec\<close> of the owner\<close>
  mDims :: "nat list"
  mImage :: "nat \<Rightarrow> 's"
  mLearningRate :: 's
  mNumGaussians :: nat
  mNumPixels :: nat
  mNumChannels :: nat
  mInitialWeight :: 's
  mInitialVariance :: 's
  mVarianceThreshold :: 's
  mMinimumBackgroundRatio :: 's

section \<open>WeightedGaussian\<close>

text \<open>\<^verbatim>\<open>std::accumulate(first, last, init)\<close>: a left fold with \<^verbatim>\<open>+\<close>.\<close>

definition accumulate :: "'s StatOps \<Rightarrow> 's list \<Rightarrow> 's \<Rightarrow> 's" where
  "accumulate ops xs init = foldl (stat_add ops) init xs"

text \<open>
  The constructor from a scalar variance (\<^verbatim>\<open>initialize\<close> with
  \<^verbatim>\<open>VISION_ASSERT(variance > (stat_type)0.0)\<close>) and the constructor from vectors.
\<close>

definition WeightedGaussian_init ::
  "BuildEnv \<Rightarrow> 's StatOps \<Rightarrow> nat \<Rightarrow> 's \<Rightarrow> 's list \<Rightarrow> 's \<Rightarrow> error + 's WeightedGaussian" where
  "WeightedGaussian_init env ops nChannels weight mean variance =
     (if \<not> NDEBUG env \<and> \<not> stat_less ops (stat_zero ops) variance then Inl AssertionFailed
      else Inr \<lparr>mWeight = weight, mMean = mean, mVariance = replicate nChannels variance\<rparr>)"

definition WeightedGaussian_init_vec ::
  "nat \<Rightarrow> 's \<Rightarrow> 's list \<Rightarrow> 's list \<Rightarrow> 's WeightedGaussian" where
  "WeightedGaussian_init_vec nChannels weight mean variance =
     \<lparr>mWeight = weight, mMean = mean, mVariance = variance\<rparr>"

text \<open>
  The constructor from pointers into the column-major state arrays: channel \<open>i\<close> of
  the mean and of the variance is read at offset \<open>i * numPixels\<close> from the pointer.
\<close>

definition WeightedGaussian_from_ptr ::
  "nat \<Rightarrow> nat \<Rightarrow> (nat \<Rightarrow> 's) \<Rightarrow> nat \<Rightarrow> (nat \<Rightarrow> 's) \<Rightarrow> nat \<Rightarrow> (nat \<Rightarrow> 's) \<Rightarrow> nat
     \<Rightarrow> 's WeightedGaussian" where
  "WeightedGaussian_from_ptr numChannels numPixels wbuf weight mbuf mean vbuf variance =
     (let m = map (\<lambda>i. mbuf (mean + i * numPixels)) [0..<numChannels];
          v = map (\<lambda>i. vbuf (variance + i * numPixels)) [0..<numChannels]
      in WeightedGaussian_init_vec numChannels (wbuf weight) m v)"

text \<open>
  \<^verbatim>\<open>isMatch\<close>: the loop runs over the entries of \<^verbatim>\<open>mMean\<close>, reading the pixel's
  channel at a stride of \<open>numPixels\<close>, and accumulates the squared distances.
\<close>

fun sumDistance_loop :: "'s StatOps \<Rightarrow> (nat \<Rightarrow> 's) \<Rightarrow> nat \<Rightarrow> 's list \<Rightarrow> nat \<Rightarrow> 's \<Rightarrow> 's" where
  "sumDistance_loop ops pixel numPixels [] offset sumDistance = sumDistance"
| "sumDistance_loop ops pixel numPixels (m # ms) offset sumDistance =
     (let distance = stat_sub ops (pixel offset) m
      in sumDistance_loop ops pixel numPixels ms (offset + numPixels)
           (stat_add ops sumDistance (stat_mul ops distance distance)))"

definition isMatch :: "'s StatOps \<Rightarrow> 's WeightedGaussian \<Rightarrow> (nat \<Rightarrow> 's) \<Rightarrow> 's \<Rightarrow> nat \<Rightarrow> bool" where
  "isMatch ops g pixel threshold numPixels =
     (let sumDistance = sumDistance_loop ops pixel numPixels (mMean g) 0 (stat_zero ops);
          sumV = accumulate ops (mVariance g) (stat_zero ops)
      in stat_less ops sumDistance (stat_mul ops threshold sumV))"

text \<open>
  \<^verbatim>\<open>update\<close>: the loop indexes \<^verbatim>\<open>mMean[i]\<close> and \<^verbatim>\<open>mVariance[i]\<close> for
  \<open>i < numChannels\<close> with the unchecked \<^verbatim>\<open>operator[]\<close>; an index beyond a vector is
  undefined behaviour.
\<close>

function update_loop ::
  "'s StatOps \<Rightarrow> (nat \<Rightarrow> 's) \<Rightarrow> 's \<Rightarrow> nat \<Rightarrow> nat \<Rightarrow> nat \<Rightarrow> nat \<Rightarrow> 's WeightedGaussian
     \<Rightarrow> error + 's WeightedGaussian" where
  "update_loop ops pixel learningRate numChannels numPixels i offset g =
     (if i < numChannels then
        (if i < length (mMean g) \<and> i < length (mVariance g) then
           (let d = stat_sub ops (pixel offset) (mMean g ! i);
                g1 = g\<lparr>mMean := (mMean g)[i := stat_add ops (mMean g ! i)
                                                  (stat_mul ops learningRate d)]\<rparr>;
                g2 = g1\<lparr>mVariance :=
                        (mVariance g1)[i := stat_add ops (mVariance g1 ! i)
                                              (stat_mul ops learningRate
                                                 (stat_sub ops (stat_mul ops d d)
                                                    (mVariance g1 ! i)))]\<rparr>
            in update_loop ops pixel learningRate numChannels numPixels (Suc i)
                 (offset + numPixels) g2)
         else Inl UndefinedBehavior)
      else Inr g)"
  by pat_completeness auto
termination
  by (relation "measure (\<lambda>(ops, pixel, learningRate, numChannels, numPixels, i, offset, g).
                           numChannels - i)")
     auto

declare update_loop.simps [simp del]

definition update ::
  "'s StatOps \<Rightarrow> 's WeightedGaussian \<Rightarrow> (nat \<Rightarrow> 's) \<Rightarrow> 's \<Rightarrow> nat \<Rightarrow> nat
     \<Rightarrow> error + 's WeightedGaussian" where
  "update ops g pixel learningRate numChannels numPixels =
     (case update_loop ops pixel learningRate numChannels numPixels 0 0 g of
        Inl e \<Rightarrow> Inl e
      | Inr g' \<Rightarrow>
          Inr (g'\<lparr>mWeight := stat_add ops (mWeight g')
                               (stat_mul ops learningRate
                                  (stat_sub ops (stat_one ops) (mWeight g')))\<rparr>))"

text \<open>\<^verbatim>\<open>rank\<close>: the weight divided by the square root of the accumulated variances.\<close>

definition rank :: "'s StatOps \<Rightarrow> 's WeightedGaussian \<Rightarrow> 's" where
  "rank ops g =
     (let sumV = accumulate ops (mVariance g) (stat_zero ops)
      in stat_div ops (mWeight g) (stat_sqrt ops sumV))"

definition scaleWeight :: "'s StatOps \<Rightarrow> 's \<Rightarrow> 's WeightedGaussian \<Rightarrow> 's WeightedGaussian" where
  "scaleWeight ops factor g = g\<lparr>mWeight := stat_mul ops (mWeight g) factor\<rparr>"

text \<open>\<^verbatim>\<open>operator>\<close>: \<^verbatim>\<open>this->rank() > other.rank()\<close>.\<close>

definition gaussian_greater :: "'s StatOps \<Rightarrow> 's WeightedGaussian \<Rightarrow> 's WeightedGaussian \<Rightarrow> bool" where
  "gaussian_greater ops g other = stat_less ops (rank ops other) (rank ops g)"

text \<open>A model is ranked when its components are in order of non-increasing rank.\<close>

definition ranked :: "'s StatOps \<Rightarrow> 's GaussianMixtureModel \<Rightarrow> bool" where
  "ranked ops gmm = sorted_wrt (\<lambda>a b. stat_le ops (rank ops b) (rank ops a)) gmm"

section \<open>The per-pixel kernel\<close>

text \<open>
  Iterators into a mixture model are indices; \<^verbatim>\<open>gmm.end()\<close> is \<open>length gmm\<close>.
  \<^verbatim>\<open>findMatch\<close> returns the first index whose component matches, and the end index
  when the loop runs off the list.
\<close>

fun findMatch_loop ::
  "'s StatOps \<Rightarrow> (nat \<Rightarrow> 's) \<Rightarrow> 's \<Rightarrow> nat \<Rightarrow> 's GaussianMixtureModel \<Rightarrow> nat \<Rightarrow> nat" where
  "findMatch_loop ops pixel threshold numPixels [] first = first"
| "findMatch_loop ops pixel threshold numPixels (g # gs) first =
     (if isMatch ops g pixel threshold numPixels then first
      else findMatch_loop ops pixel threshold numPixels gs (Suc first))"

definition findMatch ::
  "'s StatOps \<Rightarrow> 's ForegroundDetectorFunctor \<Rightarrow> 's GaussianMixtureModel \<Rightarrow> (nat \<Rightarrow> 's) \<Rightarrow> nat" where
  "findMatch ops f gmm pixel =
     findMatch_loop ops pixel (mVarianceThreshold f) (mNumPixels f) gmm 0"

text \<open>
  \<^verbatim>\<open>sortGaussians\<close>: the matched component is swapped with its predecessor while it
  ranks strictly higher; the new index is returned with the model.
\<close>

fun sortGaussians ::
  "'s StatOps \<Rightarrow> 's GaussianMixtureModel \<Rightarrow> nat \<Rightarrow> 's GaussianMixtureModel \<times> nat" where
  "sortGaussians ops gmm 0 = (gmm, 0)"
| "sortGaussians ops gmm (Suc k) =
     (if gaussian_greater ops (gmm ! Suc k) (gmm ! k)
      then sortGaussians ops (gmm[Suc k := gmm ! k, k := gmm ! Suc k]) k
      else (gmm, Suc k))"

definition normalizeWeights ::
  "'s StatOps \<Rightarrow> 's GaussianMixtureModel \<Rightarrow> 's \<Rightarrow> 's GaussianMixtureModel" where
  "normalizeWeights ops gmm scaleFactor = map (scaleWeight ops scaleFactor) gmm"

text \<open>
  \<^verbatim>\<open>findMatchAndUpdate\<close> returns the updated model and the index of the matched or
  created component. \<open>pixel\<close> is the pointer \<^verbatim>\<open>mImage + id\<close>, read at channel strides.
\<close>

definition findMatchAndUpdate ::
  "BuildEnv \<Rightarrow> 's StatOps \<Rightarrow> 's ForegroundDetectorFunctor \<Rightarrow> 's GaussianMixtureModel
     \<Rightarrow> (nat \<Rightarrow> 's) \<Rightarrow> error + ('s GaussianMixtureModel \<times> nat)" where
  "findMatchAndUpdate env ops f gmm pixel =
     (let matchingGaussian = findMatch ops f gmm pixel;
          one = stat_one ops;
          foundMatch = (matchingGaussian \<noteq> length gmm)
      in if foundMatch then
           (let weight = mWeight (gmm ! matchingGaussian);
                scaleFactor =
                  stat_div ops one
                    (stat_add ops one (stat_mul ops (mLearningRate f) (stat_sub ops one weight)))
            in case update ops (gmm ! matchingGaussian) pixel (mLearningRate f)
                      (mNumChannels f) (mNumPixels f) of
                 Inl e \<Rightarrow> Inl e
               | Inr g' \<Rightarrow>
                   (let (gmm', matchingGaussian') =
                          sortGaussians ops (gmm[matchingGaussian := g']) matchingGaussian
                    in Inr (normalizeWeights ops gmm' scaleFactor, matchingGaussian')))
         else
           (let weight = mInitialWeight f;
                popped = (gmm \<noteq> [] \<and> length gmm = mNumGaussians f);
                weight = (if popped then stat_sub ops weight (mWeight (last gmm)) else weight);
                gmm1 = (if popped then butlast gmm else gmm);
                mean = map (\<lambda>i. pixel (i * mNumPixels f)) [0..<mNumChannels f]
            in case WeightedGaussian_init env ops (mNumChannels f) (mInitialWeight f) mean
                      (mInitialVariance f) of
                 Inl e \<Rightarrow> Inl e
               | Inr g \<Rightarrow>
                   (let gmm2 = gmm1 @ [g];
                        matchingGaussian = length gmm2 - 1
                    in if \<not> NDEBUG env \<and>
                          \<not> stat_eq ops (mWeight (gmm2 ! matchingGaussian)) (mInitialWeight f)
                       then Inl AssertionFailed
                       else
                         (let scaleFactor =
                                (if length gmm2 = 1 then stat_div ops one weight
                                 else stat_div ops one (stat_add ops one weight))
                          in Inr (normalizeWeights ops gmm2 scaleFactor, matchingGaussian)))))"

text \<open>
  \<^verbatim>\<open>isForeground\<close>. The loop walks the components from \<open>start\<close>, adding each weight
  to \<^verbatim>\<open>wSum\<close>; it yields the classification (\<open>True\<close> is foreground), or \<open>None\<close> when it
  leaves the list, where the code reaches
  \<^verbatim>\<open>VISION_ASSERT(false); return !isForeground;\<close>.
\<close>

fun isForeground_loop ::
  "'s StatOps \<Rightarrow> 's \<Rightarrow> 's GaussianMixtureModel \<Rightarrow> nat \<Rightarrow> nat \<Rightarrow> 's \<Rightarrow> bool option" where
  "isForeground_loop ops minBGRatio [] start matchingGaussian wSum = None"
| "isForeground_loop ops minBGRatio (g # gs) start matchingGaussian wSum =
     (let wSum' = stat_add ops wSum (mWeight g)
      in if stat_le ops (stat_sub ops minBGRatio wSum') (Eps ops) then
           (if matchingGaussian = start then Some False else Some True)
         else if matchingGaussian = start then Some False
         else isForeground_loop ops minBGRatio gs (Suc start) matchingGaussian wSum')"

definition isForeground ::
  "BuildEnv \<Rightarrow> 's StatOps \<Rightarrow> 's ForegroundDetectorFunctor \<Rightarrow> 's GaussianMixtureModel \<Rightarrow> nat
     \<Rightarrow> error + bool" where
  "isForeground env ops f gmm matchingGaussian =
     (if matchingGaussian = 0 then Inr False
      else if \<not> NDEBUG env \<and> gmm = [] then Inl AssertionFailed
      else
        (case isForeground_loop ops (mMinimumBackgroundRatio f) gmm 0 matchingGaussian
                (stat_zero ops) of
           Some b \<Rightarrow> Inr b
         | None \<Rightarrow> (if NDEBUG env then Inr False else Inl AssertionFailed)))"

definition detectForeground ::
  "BuildEnv \<Rightarrow> 's StatOps \<Rightarrow> 's ForegroundDetectorFunctor \<Rightarrow> 's GaussianMixtureModel
     \<Rightarrow> (nat \<Rightarrow> 's) \<Rightarrow> error + ('s GaussianMixtureModel \<times> bool)" where
  "detectForeground env ops f gmm pixel =
     (case findMatchAndUpdate env ops f gmm pixel of
        Inl e \<Rightarrow> Inl e
      | Inr (gmm', matchingGaussian) \<Rightarrow>
          (case isForeground env ops f gmm' matchingGaussian of
             Inl e \<Rightarrow> Inl e
           | Inr b \<Rightarrow> Inr (gmm', b)))"

section \<open>The pixel loop and the orchestrator\<close>

text \<open>
  \<^verbatim>\<open>runAlgorithm\<close> works on the model store behind \<^verbatim>\<open>mGMMPtr\<close> and on the caller's
  mask array. \<^verbatim>\<open>mGMMPtr->at(id)\<close> is the checked access of \<^verbatim>\<open>std::vector\<close>; the loop
  condition is \<^verbatim>\<open>id != end\<close> (\<open>pid\<close> stands for \<^verbatim>\<open>id\<close>).
\<close>

function runAlgorithm ::
  "BuildEnv \<Rightarrow> 's StatOps \<Rightarrow> 's ForegroundDetectorFunctor \<Rightarrow> nat \<Rightarrow> nat
     \<Rightarrow> 's GMMVector \<times> (nat \<Rightarrow> bool) \<Rightarrow> error + ('s GMMVector \<times> (nat \<Rightarrow> bool))" where
  "runAlgorithm env ops f pid endId st =
     (if pid \<noteq> endId then
        (if pid < length (fst st) then
           (case detectForeground env ops f (fst (fst st ! pid))
                   (\<lambda>offset. mImage f (pid + offset)) of
              Inl e \<Rightarrow> Inl e
            | Inr (gmm', b) \<Rightarrow>
                runAlgorithm env ops f (Suc pid) endId
                  ((fst st)[pid := (gmm', snd (fst st ! pid))], (snd st)(pid := b)))
         else Inl OutOfRange)
      else Inr st)"
  by pat_completeness auto
termination
  by (relation "measure (\<lambda>(env, ops, f, pid, endId, st). length (fst st) - pid)") auto

declare runAlgorithm.simps [simp del]

text \<open>The loop body \<^verbatim>\<open>operator()\<close> on the range \<open>[rangeBegin, rangeEnd)\<close>.\<close>

definition functor_call ::
  "BuildEnv \<Rightarrow> 's StatOps \<Rightarrow> 's ForegroundDetectorFunctor \<Rightarrow> nat \<Rightarrow> nat
     \<Rightarrow> 's GMMVector \<times> (nat \<Rightarrow> bool) \<Rightarrow> error + ('s GMMVector \<times> (nat \<Rightarrow> bool))" where
  "functor_call env ops f rangeBegin rangeEnd st =
     (if \<not> mGMMPtr f then (if NDEBUG env then Inl UndefinedBehavior else Inl AssertionFailed)
      else runAlgorithm env ops f rangeBegin rangeEnd st)"

definition mwSize_wrap :: "BuildEnv \<Rightarrow> nat \<Rightarrow> nat" where
  "mwSize_wrap env n = n mod 2 ^ SizeBits env"

text \<open>\<^verbatim>\<open>ForegroundDetectorFunctor::setup\<close>.\<close>

definition functor_setup ::
  "BuildEnv \<Rightarrow> 's ForegroundDetectorFunctor \<Rightarrow> nat list \<Rightarrow> error + 's ForegroundDetectorFunctor" where
  "functor_setup env f dims =
     (if \<not> NDEBUG env \<and> \<not> (length dims \<ge> 2) then Inl AssertionFailed
      else if length dims < 2 then Inl UndefinedBehavior
      else Inr (f\<lparr>mNumPixels := mwSize_wrap env (dims ! 0 * dims ! 1),
                 mNumChannels := (if length dims > 2 then dims ! 2 else 1),
                 mDims := dims\<rparr>))"

definition setProperties ::
  "'s ForegroundDetectorFunctor \<Rightarrow> nat \<Rightarrow> 's \<Rightarrow> 's \<Rightarrow> 's \<Rightarrow> 's \<Rightarrow> 's ForegroundDetectorFunctor" where
  "setProperties f numGaussians initialVariance initialWeight varianceThreshold minBGRatio =
     f\<lparr>mNumGaussians := numGaussians,
       mInitialVariance := initialVariance,
       mInitialWeight := initialWeight,
       mVarianceThreshold := varianceThreshold,
       mMinimumBackgroundRatio := minBGRatio\<rparr>"

definition setStepInput ::
  "'s ForegroundDetectorFunctor \<Rightarrow> (nat \<Rightarrow> 's) \<Rightarrow> 's \<Rightarrow> 's ForegroundDetectorFunctor" where
  "setStepInput f inImage learningRate = f\<lparr>mImage := inImage, mLearningRate := learningRate\<rparr>"

record 's ForegroundDetectorImpl =
  mFtor :: "'s ForegroundDetectorFunctor"
  mGMMVec :: "'s GMMVector"

text \<open>
  The constructor leaves every member of the functor but \<^verbatim>\<open>mGMMPtr\<close> uninitialised;
  their indeterminate values are the argument.
\<close>

definition ForegroundDetectorImpl_new ::
  "'s ForegroundDetectorFunctor \<Rightarrow> 's ForegroundDetectorImpl" where
  "ForegroundDetectorImpl_new indeterminate =
     \<lparr>mFtor = indeterminate\<lparr>mGMMPtr := False\<rparr>, mGMMVec = []\<rparr>"

text \<open>
  \<^verbatim>\<open>initializeImpl\<close>: \<^verbatim>\<open>dims\<close> is passed by value and copied into \<^verbatim>\<open>mDims\<close>; the
  store is constructed with one value-initialised pair per pixel, and the loop reserves
  \<^verbatim>\<open>numGaussians\<close> components in every model and sets its pixel index. The
  construction of an empty vector and \<^verbatim>\<open>reserve(0)\<close> allocate nothing.
\<close>

definition initializeImpl ::
  "BuildEnv \<Rightarrow> 's ForegroundDetectorImpl \<Rightarrow> nat list \<Rightarrow> nat \<Rightarrow> 's \<Rightarrow> 's \<Rightarrow> 's \<Rightarrow> 's
     \<Rightarrow> error + 's ForegroundDetectorImpl" where
  "initializeImpl env d dims numGaussians initialVariance initialWeight varianceThreshold minBGRatio =
     (if dims \<noteq> [] \<and> \<not> Allocates env (DimsVector (length dims)) then Inl AllocationFailed
      else
        (case functor_setup env (mFtor d) dims of
           Inl e \<Rightarrow> Inl e
         | Inr f1 \<Rightarrow>
             (let f2 = setProperties f1 numGaussians initialVariance initialWeight
                         varianceThreshold minBGRatio
              in if mNumPixels f2 > GMMVector_max_size env then Inl LengthError
                 else if 0 < mNumPixels f2 \<and> \<not> Allocates env (ModelStore (mNumPixels f2))
                 then Inl AllocationFailed
                 else if 0 < mNumPixels f2 \<and> numGaussians > GaussianMixtureModel_max_size env
                 then Inl LengthError
                 else if 0 < mNumPixels f2 \<and> 0 < numGaussians \<and>
                         \<not> Allocates env (ModelCapacity (mNumPixels f2) numGaussians)
                 then Inl AllocationFailed
                 else
                   (let vec = map (\<lambda>i. ([], i)) [0..<mNumPixels f2]
                    in Inr \<lparr>mFtor = f2\<lparr>mGMMPtr := True\<rparr>, mGMMVec = vec\<rparr>))))"

text \<open>
  The C entry point: \<^verbatim>\<open>numberOfDims\<close>, the entries of \<^verbatim>\<open>dims\<close> and \<^verbatim>\<open>numGaussians\<close>
  are \<^verbatim>\<open>int32_T\<close> values converted to \<^verbatim>\<open>mwSize\<close>; a vector of
  \<^verbatim>\<open>(mwSize)numberOfDims\<close> elements with a negative \<^verbatim>\<open>numberOfDims\<close> exceeds
  \<^verbatim>\<open>max_size()\<close>.
\<close>

definition mwSize_of_int32 :: "BuildEnv \<Rightarrow> int \<Rightarrow> nat" where
  "mwSize_of_int32 env i = nat (i mod 2 ^ SizeBits env)"

definition foregroundDetector_initialize ::
  "BuildEnv \<Rightarrow> 's ForegroundDetectorImpl \<Rightarrow> int \<Rightarrow> (nat \<Rightarrow> int) \<Rightarrow> int \<Rightarrow> 's \<Rightarrow> 's \<Rightarrow> 's \<Rightarrow> 's
     \<Rightarrow> error + 's ForegroundDetectorImpl" where
  "foregroundDetector_initialize env fgObj numberOfDims dims numGaussians initialVariance
       initialWeight varianceThreshold minBGRatio =
     (if numberOfDims < 0 then Inl LengthError
      else if 0 < numberOfDims \<and> \<not> Allocates env (DimsVector (nat numberOfDims))
      then Inl AllocationFailed
      else
        (let dVec = map (\<lambda>i. mwSize_of_int32 env (dims i)) [0..<nat numberOfDims]
         in initializeImpl env fgObj dVec (mwSize_of_int32 env numGaussians)
              initialVariance initialWeight varianceThreshold minBGRatio))"

text \<open>
  \<^verbatim>\<open>stepImpl\<close>. On ARM the functor is called once on the whole range. Elsewhere
  \<^verbatim>\<open>tbb::parallel_for\<close> with an \<^verbatim>\<open>auto_partitioner\<close> splits
  \<^verbatim>\<open>blocked_range(0, numPixels, 1)\<close> into sub-ranges and calls the functor on each; the
  library is not part of the sources, so the sub-ranges, in the order in which they are
  run, are an argument.
\<close>

definition stepImpl ::
  "BuildEnv \<Rightarrow> 's StatOps \<Rightarrow> 's ForegroundDetectorImpl \<Rightarrow> (nat \<Rightarrow> 's) \<Rightarrow> 's \<Rightarrow> (nat \<Rightarrow> bool)
     \<Rightarrow> error + ('s ForegroundDetectorImpl \<times> (nat \<Rightarrow> bool))" where
  "stepImpl env ops d inImage learningRate fgMask =
     (let f = setStepInput (mFtor d) inImage learningRate
      in case functor_call env ops f 0 (mNumPixels f) (mGMMVec d, fgMask) of
           Inl e \<Rightarrow> Inl e
         | Inr (vec, fgMask') \<Rightarrow> Inr (\<lparr>mFtor = f, mGMMVec = vec\<rparr>, fgMask'))"

fun run_ranges ::
  "BuildEnv \<Rightarrow> 's StatOps \<Rightarrow> 's ForegroundDetectorFunctor \<Rightarrow> (nat \<times> nat) list
     \<Rightarrow> 's GMMVector \<times> (nat \<Rightarrow> bool) \<Rightarrow> error + ('s GMMVector \<times> (nat \<Rightarrow> bool))" where
  "run_ranges env ops f [] st = Inr st"
| "run_ranges env ops f (r # rs) st =
     (case functor_call env ops f (fst r) (snd r) st of
        Inl e \<Rightarrow> Inl e
      | Inr st' \<Rightarrow> run_ranges env ops f rs st')"

definition stepImpl_parallel ::
  "BuildEnv \<Rightarrow> 's StatOps \<Rightarrow> (nat \<times> nat) list \<Rightarrow> 's ForegroundDetectorImpl \<Rightarrow> (nat \<Rightarrow> 's) \<Rightarrow> 's
     \<Rightarrow> (nat \<Rightarrow> bool) \<Rightarrow> error + ('s ForegroundDetectorImpl \<times> (nat \<Rightarrow> bool))" where
  "stepImpl_parallel env ops ranges d inImage learningRate fgMask =
     (let f = setStepInput (mFtor d) inImage learningRate
      in case run_ranges env ops f ranges (mGMMVec d, fgMask) of
           Inl e \<Rightarrow> Inl e
         | Inr (vec, fgMask') \<Rightarrow> Inr (\<lparr>mFtor = f, mGMMVec = vec\<rparr>, fgMask'))"

text \<open>
  The outcome of a run that completes, and one iteration of the loop of
  \<^verbatim>\<open>runAlgorithm\<close> on such outcomes: the pixel \<open>pid\<close> is processed when the run so
  far has completed and the pixel is in the store.
\<close>

definition completed :: "error + 'a \<Rightarrow> 'a option" where
  "completed r = (case r of Inl e \<Rightarrow> None | Inr x \<Rightarrow> Some x)"

definition pixel_pass ::
  "BuildEnv \<Rightarrow> 's StatOps \<Rightarrow> 's ForegroundDetectorFunctor \<Rightarrow> nat
     \<Rightarrow> ('s GMMVector \<times> (nat \<Rightarrow> bool)) option \<Rightarrow> ('s GMMVector \<times> (nat \<Rightarrow> bool)) option" where
  "pixel_pass env ops f pid s =
     (case s of
        None \<Rightarrow> None
      | Some st \<Rightarrow>
          (if pid < length (fst st) then
             (case detectForeground env ops f (fst (fst st ! pid))
                     (\<lambda>offset. mImage f (pid + offset)) of
                Inl e \<Rightarrow> None
              | Inr (gmm', b) \<Rightarrow>
                  Some ((fst st)[pid := (gmm', snd (fst st ! pid))], (snd st)(pid := b)))
           else None))"

text \<open>
  A sequence of calls of \<^verbatim>\<open>foregroundDetector_step\<close>, each with its frame and
  learning rate, on the same mask buffer.
\<close>

fun steps ::
  "BuildEnv \<Rightarrow> 's StatOps \<Rightarrow> 's ForegroundDetectorImpl \<Rightarrow> ((nat \<Rightarrow> 's) \<times> 's) list
     \<Rightarrow> (nat \<Rightarrow> bool) \<Rightarrow> error + ('s ForegroundDetectorImpl \<times> (nat \<Rightarrow> bool))" where
  "steps env ops d [] fgMask = Inr (d, fgMask)"
| "steps env ops d (frame # frames) fgMask =
     (case stepImpl env ops d (fst frame) (snd frame) fgMask of
        Inl e \<Rightarrow> Inl e
      | Inr (d', fgMask') \<Rightarrow> steps env ops d' frames fgMask')"

definition resetImpl :: "'s ForegroundDetectorImpl \<Rightarrow> 's ForegroundDetectorImpl" where
  "resetImpl d = d\<lparr>mGMMVec := map (\<lambda>pm. ([], snd pm)) (mGMMVec d)\<rparr>"

definition releaseImpl :: "'s ForegroundDetectorImpl \<Rightarrow> 's ForegroundDetectorImpl" where
  "releaseImpl d = d\<lparr>mGMMVec := []\<rparr>"

section \<open>Exporting and importing the states\<close>

text \<open>
  The caller's arrays of \<^verbatim>\<open>getStates\<close> and \<^verbatim>\<open>setStates\<close>: \<^verbatim>\<open>weights\<close>,
  \<^verbatim>\<open>means\<close>, \<^verbatim>\<open>variances\<close> and the \<^verbatim>\<open>int\<close> array \<^verbatim>\<open>numActive\<close>. A pointer is an
  address in its array.
\<close>

record 's StateArrays =
  weights :: "nat \<Rightarrow> 's"
  means :: "nat \<Rightarrow> 's"
  variances :: "nat \<Rightarrow> 's"
  numActive :: "nat \<Rightarrow> int"

text \<open>\<^verbatim>\<open>static_cast<int>\<close> of a size: the value modulo \<open>2^32\<close>, read as signed.\<close>

definition int_of_mwSize :: "nat \<Rightarrow> int" where
  "int_of_mwSize n = (int n + 2 ^ 31) mod 2 ^ 32 - 2 ^ 31"

text \<open>\<^verbatim>\<open>copyStat\<close>: writes \<^verbatim>\<open>src[i]\<close> at \<^verbatim>\<open>dst\<close>, advancing \<^verbatim>\<open>dst\<close> by \<^verbatim>\<open>offset\<close>.\<close>

fun copyStat :: "'s list \<Rightarrow> (nat \<Rightarrow> 's) \<Rightarrow> nat \<Rightarrow> nat \<Rightarrow> (nat \<Rightarrow> 's)" where
  "copyStat [] buf dst offset = buf"
| "copyStat (x # xs) buf dst offset = copyStat xs (buf(dst := x)) (dst + offset) offset"

fun getGMMStates_loop ::
  "nat \<Rightarrow> nat \<Rightarrow> 's GaussianMixtureModel \<Rightarrow> nat \<Rightarrow> nat \<Rightarrow> nat \<Rightarrow> nat \<Rightarrow> 's StateArrays
     \<Rightarrow> 's StateArrays" where
  "getGMMStates_loop numPixels statOffset [] wptr weight_offset mptr vptr b = b"
| "getGMMStates_loop numPixels statOffset (g # gs) wptr weight_offset mptr vptr b =
     getGMMStates_loop numPixels statOffset gs wptr (weight_offset + numPixels)
       (mptr + statOffset) (vptr + statOffset)
       (b\<lparr>weights := (weights b)(wptr + weight_offset := mWeight g),
          means := copyStat (mMean g) (means b) mptr numPixels,
          variances := copyStat (mVariance g) (variances b) vptr numPixels\<rparr>)"

definition getGMMStates ::
  "'s ForegroundDetectorFunctor \<Rightarrow> 's GaussianMixtureModel \<Rightarrow> nat \<Rightarrow> nat \<Rightarrow> nat \<Rightarrow> nat
     \<Rightarrow> 's StateArrays \<Rightarrow> 's StateArrays" where
  "getGMMStates f gmm wptr mptr vptr naptr b =
     (let b1 = b\<lparr>numActive := (numActive b)(naptr := int_of_mwSize (length gmm))\<rparr>;
          numPixels = mNumPixels f;
          numChannels = mNumChannels f;
          statOffset = numPixels * numChannels
      in getGMMStates_loop numPixels statOffset gmm wptr 0 mptr vptr b1)"

fun getStatesImpl_loop ::
  "'s ForegroundDetectorFunctor \<Rightarrow> 's GMMVector \<Rightarrow> nat \<Rightarrow> nat \<Rightarrow> nat \<Rightarrow> nat \<Rightarrow> 's StateArrays
     \<Rightarrow> 's StateArrays" where
  "getStatesImpl_loop f [] wptr mptr vptr naptr b = b"
| "getStatesImpl_loop f (pm # pms) wptr mptr vptr naptr b =
     getStatesImpl_loop f pms (Suc wptr) (Suc mptr) (Suc vptr) (Suc naptr)
       (getGMMStates f (fst pm) wptr mptr vptr naptr b)"

definition getStatesImpl :: "'s ForegroundDetectorImpl \<Rightarrow> 's StateArrays \<Rightarrow> 's StateArrays" where
  "getStatesImpl d b = getStatesImpl_loop (mFtor d) (mGMMVec d) 0 0 0 0 b"

text \<open>
  \<^verbatim>\<open>setGMMStates\<close>: the loop \<^verbatim>\<open>for (int n = 0; n < numActiveGaussians; ++n)\<close> runs
  \<open>nat numActiveGaussians\<close> times (\<open>n\<close> stays below an \<^verbatim>\<open>int\<close>, so it does not
  overflow); the first argument of the loop function counts the iterations that are
  left. Every iteration constructs a component and pushes it into the model, which
  allocates; the call fails when the environment refuses the allocations for the
  components of the model.
\<close>

fun setGMMStates_loop ::
  "nat \<Rightarrow> nat \<Rightarrow> 's StateArrays \<Rightarrow> nat \<Rightarrow> nat \<Rightarrow> nat \<Rightarrow> nat \<Rightarrow> 's GaussianMixtureModel
     \<Rightarrow> 's GaussianMixtureModel" where
  "setGMMStates_loop numChannels numPixels b 0 wptr mptr vptr gmm = gmm"
| "setGMMStates_loop numChannels numPixels b (Suc k) wptr mptr vptr gmm =
     setGMMStates_loop numChannels numPixels b k
       (wptr + numPixels) (mptr + numPixels * numChannels) (vptr + numPixels * numChannels)
       (gmm @ [WeightedGaussian_from_ptr numChannels numPixels
                 (weights b) wptr (means b) mptr (variances b) vptr])"

definition setGMMStates ::
  "BuildEnv \<Rightarrow> 's ForegroundDetectorFunctor \<Rightarrow> 's GaussianMixtureModel \<Rightarrow> int \<Rightarrow> nat \<Rightarrow> nat
     \<Rightarrow> nat \<Rightarrow> 's StateArrays \<Rightarrow> error + 's GaussianMixtureModel" where
  "setGMMStates env f gmm numActiveGaussians wptr mptr vptr b =
     (if 0 < numActiveGaussians \<and>
         \<not> Allocates env (ImportedModel (nat numActiveGaussians) (mNumChannels f))
      then Inl AllocationFailed
      else Inr (setGMMStates_loop (mNumChannels f) (mNumPixels f) b (nat numActiveGaussians)
                  wptr mptr vptr gmm))"

text \<open>
  \<^verbatim>\<open>setStatesImpl\<close>: the loop \<^verbatim>\<open>for (int i = 0; currentIter != endIter; ++currentIter, ++i)\<close>
  counts the pixels in an \<^verbatim>\<open>int\<close>. The increment is evaluated after every iteration,
  the last one included, so it overflows, which is undefined behaviour, after the
  iteration with \<open>i = 2^31 - 1\<close>.
\<close>

fun setStatesImpl_loop ::
  "BuildEnv \<Rightarrow> 's ForegroundDetectorFunctor \<Rightarrow> 's StateArrays \<Rightarrow> 's GMMVector \<Rightarrow> int \<Rightarrow> nat
     \<Rightarrow> nat \<Rightarrow> nat \<Rightarrow> error + 's GMMVector" where
  "setStatesImpl_loop env f b [] i wptr mptr vptr = Inr []"
| "setStatesImpl_loop env f b (pm # pms) i wptr mptr vptr =
     (case setGMMStates env f (fst pm) (numActive b (nat i)) wptr mptr vptr b of
        Inl e \<Rightarrow> Inl e
      | Inr gmm' \<Rightarrow>
          (if i = 2 ^ 31 - 1 then Inl UndefinedBehavior
           else
             (case setStatesImpl_loop env f b pms (i + 1) (Suc wptr) (Suc mptr) (Suc vptr) of
                Inl e \<Rightarrow> Inl e
              | Inr rest \<Rightarrow> Inr ((gmm', snd pm) # rest))))"

definition setStatesImpl ::
  "BuildEnv \<Rightarrow> 's ForegroundDetectorImpl \<Rightarrow> 's StateArrays
     \<Rightarrow> error + 's ForegroundDetectorImpl" where
  "setStatesImpl env d b =
     (case setStatesImpl_loop env (mFtor d) b (mGMMVec d) 0 0 0 0 of
        Inl e \<Rightarrow> Inl e
      | Inr vec \<Rightarrow> Inr (d\<lparr>mGMMVec := vec\<rparr>))"

text \<open>Every component of a model has one mean and one variance per channel.\<close>

definition channels_ok :: "nat \<Rightarrow> 's GaussianMixtureModel \<Rightarrow> bool" where
  "channels_ok C gmm = list_all (\<lambda>g. length (mMean g) = C \<and> length (mVariance g) = C) gmm"

text \<open>
  The invariants of a detector that was initialised and stepped, as far as the export
  and the import of the states need them: the model pointer is set, the pixel and
  channel counts are those \<^verbatim>\<open>setup\<close> derives from the dimensions, there are fewer than
  \<open>2^31\<close> pixels (the import counts them in an \<^verbatim>\<open>int\<close>), the store holds one model per
  pixel, tagged with its index, every component has one mean and one variance per
  channel, and a model has fewer than \<open>2^31\<close> components (the count is exported as an
  \<^verbatim>\<open>int\<close>).
\<close>

definition Ready :: "BuildEnv \<Rightarrow> 's ForegroundDetectorImpl \<Rightarrow> bool" where
  "Ready env d =
     (let f = mFtor d
      in mGMMPtr f \<and> 2 \<le> length (mDims f) \<and>
         mNumPixels f = mwSize_wrap env (mDims f ! 0 * mDims f ! 1) \<and>
         mNumPixels f < 2 ^ 31 \<and>
         mNumChannels f = (if length (mDims f) > 2 then mDims f ! 2 else 1) \<and>
         map snd (mGMMVec d) = [0..<mNumPixels f] \<and>
         list_all (\<lambda>pm. length (fst pm) < 2 ^ 31 \<and>
                         list_all (\<lambda>g. length (mMean g) = mNumChannels f \<and>
                                        length (mVariance g) = mNumChannels f) (fst pm))
           (mGMMVec d))"

section \<open>Exact arithmetic\<close>

text \<open>
  The arithmetic of the real numbers with a given epsilon. Division by zero and the
  square root of a negative number have no value in exact arithmetic; the statements
  about \<open>real_ops\<close> below are either evaluations in which neither occurs or carry the
  hypotheses that exclude them.
\<close>

definition real_ops :: "real \<Rightarrow> real StatOps" where
  "real_ops eps =
     \<lparr>stat_zero = 0, stat_one = 1, stat_add = (+), stat_sub = (-), stat_mul = (*),
      stat_div = (/), stat_sqrt = sqrt, stat_less = (<), stat_le = (\<le>), stat_eq = (=),
      Eps = eps\<rparr>"

text \<open>
  An arithmetic on any carrier is exact when a valuation into the real numbers turns
  its constants, operations and comparisons into those of the real numbers (the
  quotient where the divisor is not zero, the square root of non-negative values).
\<close>

definition exact_arithmetic :: "'s StatOps \<Rightarrow> ('s \<Rightarrow> real) \<Rightarrow> bool" where
  "exact_arithmetic ops val =
     (val (stat_zero ops) = 0 \<and> val (stat_one ops) = 1 \<and>
      (\<forall>a b. val (stat_add ops a b) = val a + val b) \<and>
      (\<forall>a b. val (stat_sub ops a b) = val a - val b) \<and>
      (\<forall>a b. val (stat_mul ops a b) = val a * val b) \<and>
      (\<forall>a b. val b \<noteq> 0 \<longrightarrow> val (stat_div ops a b) = val a / val b) \<and>
      (\<forall>a. 0 \<le> val a \<longrightarrow> val (stat_sqrt ops a) = sqrt (val a)) \<and>
      (\<forall>a b. stat_less ops a b = (val a < val b)) \<and>
      (\<forall>a b. stat_le ops a b = (val a \<le> val b)) \<and>
      (\<forall>a b. stat_eq ops a b = (val a = val b)))"

section \<open>Concrete configurations\<close>

text \<open>
  A debug and a release build on a 64-bit platform in which every allocation succeeds,
  exact arithmetic with the epsilon of double precision, and the configuration of the
  static-scene scenario (one gray pixel of value 128, three components, learning rate
  0.05) on a single-pixel, single-channel frame.
\<close>

definition env_debug :: BuildEnv where
  "env_debug = \<lparr>NDEBUG = False, SizeBits = 64,
                 GMMVector_max_size = 2 ^ 58, GaussianMixtureModel_max_size = 2 ^ 57,
                 Allocates = (\<lambda>a. True)\<rparr>"

definition env_release :: BuildEnv where
  "env_release = \<lparr>NDEBUG = True, SizeBits = 64,
                   GMMVector_max_size = 2 ^ 58, GaussianMixtureModel_max_size = 2 ^ 57,
                   Allocates = (\<lambda>a. True)\<rparr>"

definition exact_ops :: "real StatOps" where
  "exact_ops = real_ops (1 / 2 ^ 52)"

definition scene_functor :: "real ForegroundDetectorFunctor" where
  "scene_functor =
     \<lparr>mGMMPtr = True, mDims = [1, 1], mImage = (\<lambda>a. 128), mLearningRate = 1 / 20,
      mNumGaussians = 3, mNumPixels = 1, mNumChannels = 1, mInitialWeight = 1 / 20,
      mInitialVariance = 36, mVarianceThreshold = 25 / 4, mMinimumBackgroundRatio = 7 / 10\<rparr>"

definition gaussian1 :: "real \<Rightarrow> real \<Rightarrow> real \<Rightarrow> real WeightedGaussian" where
  "gaussian1 w m v = \<lparr>mWeight = w, mMean = [m], mVariance = [v]\<rparr>"

text \<open>The detector of the scenario right after \<^verbatim>\<open>initialize\<close>, for a capacity \<open>K\<close>.\<close>

definition scene_detector :: "nat \<Rightarrow> real ForegroundDetectorImpl" where
  "scene_detector K = \<lparr>mFtor = scene_functor\<lparr>mNumGaussians := K\<rparr>, mGMMVec = [([], 0)]\<rparr>"

text \<open>
  A detector of two pixels (one channel): the first pixel holds one component, the
  second none; and a frame with the values 134 and 10.
\<close>

definition two_pixel_detector :: "real ForegroundDetectorImpl" where
  "two_pixel_detector =
     \<lparr>mFtor = scene_functor\<lparr>mDims := [2, 1], mNumPixels := 2\<rparr>,
      mGMMVec = [([gaussian1 1 128 36], 0), ([], 1)]\<rparr>"

definition two_pixel_frame :: "nat \<Rightarrow> real" where
  "two_pixel_frame a = (if a = 0 then 134 else 10)"

text \<open>State arrays filled with zeros.\<close>

definition empty_arrays :: "real StateArrays" where
  "empty_arrays = \<lparr>weights = (\<lambda>a. 0), means = (\<lambda>a. 0), variances = (\<lambda>a. 0), numActive = (\<lambda>a. 0)\<rparr>"

text \<open>The eviction scenario: capacity one, and a frame of value 200.\<close>

definition evict_functor :: "real ForegroundDetectorFunctor" where
  "evict_functor = scene_functor\<lparr>mNumGaussians := 1, mImage := (\<lambda>a. 200)\<rparr>"

text \<open>
  A coarse rounded arithmetic on the real numbers: the result of every operation is
  rounded to the nearest multiple of \<open>1/8\<close> (ties upwards), and the epsilon is \<open>1/8\<close>.
  It stands for a floating-point arithmetic in the examples where the rounded and the
  exact computation differ.
\<close>

definition round8 :: "real \<Rightarrow> real" where
  "round8 x = of_int \<lfloor>x * 8 + 1 / 2\<rfloor> / 8"

definition grid_ops :: "real StatOps" where
  "grid_ops =
     \<lparr>stat_zero = 0, stat_one = 1,
      stat_add = (\<lambda>a b. round8 (a + b)), stat_sub = (\<lambda>a b. round8 (a - b)),
      stat_mul = (\<lambda>a b. round8 (a * b)), stat_div = (\<lambda>a b. round8 (a / b)),
      stat_sqrt = (\<lambda>a. round8 (sqrt a)),
      stat_less = (<), stat_le = (\<le>), stat_eq = (=), Eps = 1 / 8\<rparr>"

text \<open>
  A detector of one pixel whose model holds the weights 0.8 and 0.2, configured with
  the minimum background ratio 0.7.
\<close>

definition crossing_detector :: "real ForegroundDetectorImpl" where
  "crossing_detector =
     \<lparr>mFtor = scene_functor,
      mGMMVec = [([gaussian1 (4 / 5) 128 36, gaussian1 (1 / 5) 200 36], 0)]\<rparr>"

section \<open>Properties\<close>

lemmas kernel_eval =
  findMatchAndUpdate_def findMatch_def isMatch_def accumulate_def update_def update_loop.simps
  WeightedGaussian_init_def gaussian_greater_def rank_def normalizeWeights_def scaleWeight_def
  isForeground_def detectForeground_def Let_def

lemma upt_2: "[0..<2] = [0, 1]"
  by (simp add: upt_rec)

lemma upt_4: "[0..<4] = [0, 1, 2, 3]"
  by (simp add: upt_rec)

lemmas store_eval =
  initializeImpl_def functor_setup_def setProperties_def mwSize_wrap_def mwSize_of_int32_def
  foregroundDetector_initialize_def ForegroundDetectorImpl_new_def stepImpl_def
  functor_call_def setStepInput_def runAlgorithm.simps

lemmas fixture_defs =
  scene_functor_def evict_functor_def gaussian1_def env_release_def env_debug_def
  scene_detector_def two_pixel_detector_def two_pixel_frame_def empty_arrays_def
  exact_ops_def real_ops_def crossing_detector_def grid_ops_def round8_def

lemma real_ops_simps [simp]:
  "stat_zero (real_ops e) = 0" "stat_one (real_ops e) = 1"
  "stat_add (real_ops e) = (+)" "stat_sub (real_ops e) = (-)"
  "stat_mul (real_ops e) = (*)" "stat_div (real_ops e) = (/)"
  "stat_sqrt (real_ops e) = sqrt"
  "stat_less (real_ops e) = (<)" "stat_le (real_ops e) = (\<le>)" "stat_eq (real_ops e) = (=)"
  "Eps (real_ops e) = e"
  by (simp_all add: real_ops_def)

lemma exact_arithmetic_real_ops: "exact_arithmetic (real_ops e) (\<lambda>x. x)"
  by (simp add: exact_arithmetic_def)

lemma exact_foldl_add:
  assumes "exact_arithmetic ops val"
  shows "val (foldl (\<lambda>s c. stat_add ops s (h c)) a cs) = val a + (\<Sum>c\<leftarrow>cs. val (h c))"
proof (induction cs arbitrary: a)
  case Nil
  show ?case by simp
next
  case (Cons c cs)
  from assms have "val (stat_add ops a (h c)) = val a + val (h c)"
    by (simp add: exact_arithmetic_def)
  then show ?case by (simp add: Cons.IH)
qed

lemma exact_accumulate:
  assumes "exact_arithmetic ops val"
  shows "val (accumulate ops xs (stat_zero ops)) = (\<Sum>x\<leftarrow>xs. val x)"
proof -
  have "foldl (stat_add ops) a xs = foldl (\<lambda>s c. stat_add ops s c) a xs" for a
    by simp
  with exact_foldl_add [OF assms, of "\<lambda>c. c" "stat_zero ops" xs] assms show ?thesis
    by (simp add: accumulate_def exact_arithmetic_def)
qed

lemma sumDistance_loop_foldl:
  "sumDistance_loop ops pixel numPixels ms offset acc =
     foldl (\<lambda>s c. let d = stat_sub ops (pixel (offset + c * numPixels)) (ms ! c)
                   in stat_add ops s (stat_mul ops d d))
       acc [0..<length ms]"
proof (induction ms arbitrary: offset acc)
  case Nil
  show ?case by simp
next
  case (Cons m ms)
  have upt: "[0..<length (m # ms)] = 0 # map Suc [0..<length ms]"
    by (simp add: upt_conv_Cons map_Suc_upt del: upt_Suc)
  show ?case
    by (simp only: upt) (simp add: Cons.IH Let_def foldl_map algebra_simps)
qed

lemma findMatch_loop_ge: "first \<le> findMatch_loop ops pixel thr np gmm first"
  by (induction gmm arbitrary: first) (auto intro: Suc_leD)

lemma findMatch_loop_le: "findMatch_loop ops pixel thr np gmm first \<le> first + length gmm"
proof (induction gmm arbitrary: first)
  case Nil
  show ?case by simp
next
  case (Cons g gs)
  from Cons.IH [of "Suc first"] show ?case by simp
qed

lemma findMatch_loop_found:
  "findMatch_loop ops pixel thr np gmm first < first + length gmm \<Longrightarrow>
     isMatch ops (gmm ! (findMatch_loop ops pixel thr np gmm first - first)) pixel thr np"
proof (induction gmm arbitrary: first)
  case Nil
  then show ?case by simp
next
  case (Cons g gs)
  show ?case
  proof (cases "isMatch ops g pixel thr np")
    case True
    then show ?thesis by simp
  next
    case False
    have ge: "Suc first \<le> findMatch_loop ops pixel thr np gs (Suc first)"
      by (rule findMatch_loop_ge)
    from Cons.prems False
    have "findMatch_loop ops pixel thr np gs (Suc first) < Suc first + length gs" by simp
    from Cons.IH [OF this] ge False show ?thesis
      by (simp add: Suc_diff_le)
  qed
qed

lemma findMatch_loop_first:
  "j < findMatch_loop ops pixel thr np gmm first - first \<Longrightarrow> j < length gmm \<Longrightarrow>
     \<not> isMatch ops (gmm ! j) pixel thr np"
proof (induction gmm arbitrary: first j)
  case Nil
  then show ?case by simp
next
  case (Cons g gs)
  show ?case
  proof (cases "isMatch ops g pixel thr np")
    case True
    with Cons.prems show ?thesis by simp
  next
    case False
    show ?thesis
    proof (cases j)
      case 0
      with False show ?thesis by simp
    next
      case (Suc k)
      have ge: "Suc first \<le> findMatch_loop ops pixel thr np gs (Suc first)"
        by (rule findMatch_loop_ge)
      from Cons.prems False Suc ge
      have "k < findMatch_loop ops pixel thr np gs (Suc first) - Suc first" by simp
      moreover from Cons.prems Suc have "k < length gs" by simp
      ultimately have "\<not> isMatch ops (gs ! k) pixel thr np" by (rule Cons.IH)
      with Suc show ?thesis by simp
    qed
  qed
qed

lemma findMatch_le: "findMatch ops f gmm pixel \<le> length gmm"
  using findMatch_loop_le [of ops pixel "mVarianceThreshold f" "mNumPixels f" gmm 0]
  by (simp add: findMatch_def)

lemma isMatch_foldl:
  "isMatch ops g pixel threshold numPixels \<longleftrightarrow>
     stat_less ops
       (foldl (\<lambda>s c. let d = stat_sub ops (pixel (c * numPixels)) (mMean g ! c)
                      in stat_add ops s (stat_mul ops d d))
          (stat_zero ops) [0..<length (mMean g)])
       (stat_mul ops threshold (foldl (stat_add ops) (stat_zero ops) (mVariance g)))"
  by (simp add: isMatch_def Let_def sumDistance_loop_foldl accumulate_def)

lemma isMatch_exact:
  assumes ex: "exact_arithmetic ops val"
  shows "isMatch ops g pixel threshold numPixels \<longleftrightarrow>
     (\<Sum>c < length (mMean g). (val (pixel (c * numPixels)) - val (mMean g ! c))\<^sup>2)
       < val threshold * (\<Sum>v\<leftarrow>mVariance g. val v)"
proof -
  let ?sq = "\<lambda>c. let d = stat_sub ops (pixel (c * numPixels)) (mMean g ! c) in stat_mul ops d d"
  have fold: "foldl (\<lambda>s c. let d = stat_sub ops (pixel (c * numPixels)) (mMean g ! c)
                            in stat_add ops s (stat_mul ops d d)) a cs =
              foldl (\<lambda>s c. stat_add ops s (?sq c)) a cs" for a cs
    by (simp add: Let_def)
  have sq: "val (?sq c) = (val (pixel (c * numPixels)) - val (mMean g ! c))\<^sup>2" for c
    using ex by (simp add: exact_arithmetic_def Let_def power2_eq_square)
  have "val (foldl (\<lambda>s c. stat_add ops s (?sq c)) (stat_zero ops) [0..<length (mMean g)]) =
        (\<Sum>c\<leftarrow>[0..<length (mMean g)]. val (?sq c))"
    using exact_foldl_add [OF ex, of ?sq "stat_zero ops"] ex
    by (simp add: exact_arithmetic_def)
  also have "\<dots> = (\<Sum>c < length (mMean g). (val (pixel (c * numPixels)) - val (mMean g ! c))\<^sup>2)"
    by (simp only: sq interv_sum_list_conv_sum_set_nat set_upt atLeast0LessThan)
  finally have dist:
    "val (foldl (\<lambda>s c. stat_add ops s (?sq c)) (stat_zero ops) [0..<length (mMean g)]) =
     (\<Sum>c < length (mMean g). (val (pixel (c * numPixels)) - val (mMean g ! c))\<^sup>2)" .
  have var: "val (foldl (stat_add ops) (stat_zero ops) (mVariance g)) = (\<Sum>v\<leftarrow>mVariance g. val v)"
    using exact_accumulate [OF ex] by (simp add: accumulate_def)
  have less: "stat_less ops a b = (val a < val b)" for a b
    using ex by (simp add: exact_arithmetic_def)
  have mul: "val (stat_mul ops a b) = val a * val b" for a b
    using ex by (simp add: exact_arithmetic_def)
  show ?thesis
    unfolding isMatch_foldl fold less mul dist var ..
qed

subsection \<open>Match semantics\<close>

text \<open>
  Claim C3. For every pixel and every model, \<^verbatim>\<open>findMatch\<close> returns the first
  component, in stored order, that matches, and the end marker (the length of the model)
  exactly when no component matches. A component matches when the squared per-channel
  distances to the pixel, added up in \<^verbatim>\<open>stat_type\<close> in the order of the channels, are
  strictly below the product of the threshold and the accumulated per-channel
  variances. In every exact arithmetic this is the inequality between the sum of the
  squared distances and the threshold times the sum of the variances.
\<close>

theorem findMatch_first_match:
  "(let sumDistance =
          (\<lambda>g. foldl (\<lambda>s c. let d = stat_sub ops (pixel (c * mNumPixels f)) (mMean g ! c)
                             in stat_add ops s (stat_mul ops d d))
                  (stat_zero ops) [0..<length (mMean g)]);
        sumV = (\<lambda>g. foldl (stat_add ops) (stat_zero ops) (mVariance g));
        matches =
          (\<lambda>g. stat_less ops (sumDistance g) (stat_mul ops (mVarianceThreshold f) (sumV g)));
        r = findMatch ops f gmm pixel
    in r \<le> length gmm \<and>
       (r < length gmm \<longrightarrow> matches (gmm ! r)) \<and>
       (\<forall>j < r. \<not> matches (gmm ! j)) \<and>
       (r = length gmm \<longleftrightarrow> (\<forall>j < length gmm. \<not> matches (gmm ! j))) \<and>
       (\<forall>val. exact_arithmetic ops val \<longrightarrow>
          (\<forall>g. matches g \<longleftrightarrow>
             (\<Sum>c < length (mMean g). (val (pixel (c * mNumPixels f)) - val (mMean g ! c))\<^sup>2)
               < val (mVarianceThreshold f) * (\<Sum>v\<leftarrow>mVariance g. val v))))"
proof -
  let ?thr = "mVarianceThreshold f" and ?np = "mNumPixels f"
  let ?r = "findMatch_loop ops pixel ?thr ?np gmm 0"
  have le: "?r \<le> length gmm"
    using findMatch_loop_le [of ops pixel ?thr ?np gmm 0] by simp
  have found: "?r < length gmm \<Longrightarrow> isMatch ops (gmm ! ?r) pixel ?thr ?np"
    using findMatch_loop_found [of ops pixel ?thr ?np gmm 0] by simp
  have before: "\<And>j. j < ?r \<Longrightarrow> \<not> isMatch ops (gmm ! j) pixel ?thr ?np"
    using findMatch_loop_first [of _ ops pixel ?thr ?np gmm 0] le by simp
  have none: "?r = length gmm \<longleftrightarrow> (\<forall>j < length gmm. \<not> isMatch ops (gmm ! j) pixel ?thr ?np)"
    using le found before by (metis le_neq_implies_less nat_less_le)
  have exact: "\<And>val g. exact_arithmetic ops val \<Longrightarrow>
      isMatch ops g pixel ?thr ?np \<longleftrightarrow>
        (\<Sum>c < length (mMean g). (val (pixel (c * ?np)) - val (mMean g ! c))\<^sup>2)
          < val ?thr * (\<Sum>v\<leftarrow>mVariance g. val v)"
    by (rule isMatch_exact)
  show ?thesis
    unfolding Let_def findMatch_def isMatch_foldl [unfolded Let_def, symmetric]
    using le found before none exact by blast
qed

theorem findMatch_first_match_witness:
  "findMatch exact_ops scene_functor [gaussian1 (19 / 20) 10 36, gaussian1 (1 / 20) 128 36]
     (\<lambda>a. 128) = 1 \<and>
   exact_arithmetic exact_ops (\<lambda>x. x) \<and>
   (\<Sum>c < length [128 :: real]. ((128 :: real) - [128] ! c)\<^sup>2) < 25 / 4 * sum_list [36] \<and>
   \<not> (\<Sum>c < length [10 :: real]. ((128 :: real) - [10] ! c)\<^sup>2) < 25 / 4 * sum_list [36]"
  using findMatch_first_match
    [where ops = exact_ops and pixel = "\<lambda>a. 128" and f = scene_functor
       and gmm = "[gaussian1 (19 / 20) 10 36, gaussian1 (1 / 20) 128 36]"]
    exact_arithmetic_real_ops [of "1 / 2 ^ 52"]
  by (simp add: findMatch_def isMatch_def accumulate_def scene_functor_def gaussian1_def
        exact_ops_def Let_def)

subsection \<open>Weights\<close>

lemma update_loop_weight:
  "update_loop ops pixel lr nc np i off g = Inr g' \<Longrightarrow> mWeight g' = mWeight g"
proof (induction ops pixel lr nc np i off g rule: update_loop.induct)
  case (1 ops pixel lr nc np i off g)
  show ?case
  proof (cases "i < nc")
    case False
    with "1.prems" show ?thesis by (simp add: update_loop.simps)
  next
    case True
    show ?thesis
    proof (cases "i < length (mMean g) \<and> i < length (mVariance g)")
      case False
      with True "1.prems" show ?thesis by (simp add: update_loop.simps [of _ _ _ _ _ i])
    next
      case inb: True
      from "1.prems" True inb "1.IH" [OF True inb refl refl refl]
      show ?thesis by (simp add: update_loop.simps [of _ _ _ _ _ i] Let_def)
    qed
  qed
qed

lemma update_weight:
  "update ops g pixel lr nc np = Inr g' \<Longrightarrow>
   mWeight g' =
     stat_add ops (mWeight g) (stat_mul ops lr (stat_sub ops (stat_one ops) (mWeight g)))"
  by (auto simp: update_def split: sum.splits dest: update_loop_weight)

lemma sortGaussians_mset:
  "m < length gmm \<Longrightarrow> mset (fst (sortGaussians ops gmm m)) = mset gmm"
proof (induction m arbitrary: gmm)
  case 0
  show ?case by simp
next
  case (Suc k)
  then have k: "k < length gmm" "Suc k < length gmm" by simp_all
  have "mset (gmm[Suc k := gmm ! k, k := gmm ! Suc k]) = mset gmm"
    using mset_swap [OF k] .
  moreover have "k < length (gmm[Suc k := gmm ! k, k := gmm ! Suc k])" using k by simp
  ultimately show ?case using Suc.IH by simp
qed

lemma sortGaussians_length:
  "length (fst (sortGaussians ops gmm m)) = length gmm"
  by (induction m arbitrary: gmm) simp_all

lemma sortGaussians_index: "snd (sortGaussians ops gmm m) \<le> m"
  by (induction m arbitrary: gmm) (simp_all add: le_SucI)

lemma sum_weights_mset:
  fixes xs :: "real WeightedGaussian list"
  shows "mset xs = mset ys \<Longrightarrow> sum_list (map mWeight xs) = sum_list (map mWeight ys)"
  by (metis mset_map sum_mset_sum_list)

lemma normalizeWeights_sum:
  "sum_list (map mWeight (normalizeWeights (real_ops e) gmm sf)) = sf * sum_list (map mWeight gmm)"
  by (induction gmm) (simp_all add: normalizeWeights_def scaleWeight_def algebra_simps)

lemma sum_weights_update:
  fixes gmm :: "real WeightedGaussian list"
  shows "m < length gmm \<Longrightarrow>
   sum_list (map mWeight (gmm[m := g])) = sum_list (map mWeight gmm) + mWeight g - mWeight (gmm ! m)"
proof (induction gmm arbitrary: m)
  case Nil
  then show ?case by simp
next
  case (Cons x xs)
  then show ?case by (cases m) simp_all
qed

lemma sum_weights_butlast:
  fixes gmm :: "real WeightedGaussian list"
  shows "gmm \<noteq> [] \<Longrightarrow> sum_list (map mWeight (butlast gmm)) = sum_list (map mWeight gmm) - mWeight (last gmm)"
  by (induction gmm rule: rev_induct) simp_all

lemma weights_sum_matched:
  assumes sum1: "sum_list (map mWeight gmm) = 1"
    and res: "findMatchAndUpdate env (real_ops e) f gmm pixel = Inr (gmm', m')"
    and found: "findMatch (real_ops e) f gmm pixel \<noteq> length gmm"
    and den: "1 + mLearningRate f * (1 - mWeight (gmm ! findMatch (real_ops e) f gmm pixel)) \<noteq> 0"
  shows "sum_list (map mWeight gmm') = 1"
proof -
  let ?m = "findMatch (real_ops e) f gmm pixel"
  let ?w = "mWeight (gmm ! ?m)"
  let ?sf = "1 / (1 + mLearningRate f * (1 - ?w))"
  from found findMatch_le [of "real_ops e" f gmm pixel] have m: "?m < length gmm" by simp
  from res found obtain g' where
    upd: "update (real_ops e) (gmm ! ?m) pixel (mLearningRate f) (mNumChannels f) (mNumPixels f) = Inr g'"
    and gmm': "gmm' = normalizeWeights (real_ops e) (fst (sortGaussians (real_ops e) (gmm[?m := g']) ?m)) ?sf"
    by (auto simp: findMatchAndUpdate_def Let_def split: sum.splits prod.splits)
  have w': "mWeight g' = ?w + mLearningRate f * (1 - ?w)"
    using update_weight [OF upd] by simp
  have "sum_list (map mWeight (fst (sortGaussians (real_ops e) (gmm[?m := g']) ?m))) =
        sum_list (map mWeight (gmm[?m := g']))"
    using m by (intro sum_weights_mset sortGaussians_mset) simp
  also have "\<dots> = 1 + mLearningRate f * (1 - ?w)"
    using m sum1 w' by (simp add: sum_weights_update)
  finally show ?thesis
    using den by (simp add: gmm' normalizeWeights_sum)
qed

lemma weights_sum_unmatched:
  assumes sum1: "sum_list (map mWeight gmm) = 1"
    and res: "findMatchAndUpdate env (real_ops e) f gmm pixel = Inr (gmm', m')"
    and nomatch: "findMatch (real_ops e) f gmm pixel = length gmm"
    and below: "length gmm \<noteq> mNumGaussians f \<Longrightarrow> 1 + mInitialWeight f \<noteq> 0"
    and evict: "length gmm = mNumGaussians f \<Longrightarrow>
                  2 \<le> mNumGaussians f \<and> 1 + (mInitialWeight f - mWeight (last gmm)) \<noteq> 0"
  shows "sum_list (map mWeight gmm') = 1"
proof -
  from sum1 have ne: "gmm \<noteq> []" by auto
  let ?mean = "map (\<lambda>i. pixel (i * mNumPixels f)) [0..<mNumChannels f]"
  from res nomatch obtain g where
    g: "WeightedGaussian_init env (real_ops e) (mNumChannels f) (mInitialWeight f) ?mean (mInitialVariance f) = Inr g"
    by (auto simp: findMatchAndUpdate_def Let_def split: sum.splits if_splits)
  then have wg: "mWeight g = mInitialWeight f"
    by (auto simp: WeightedGaussian_init_def split: if_splits)
  show ?thesis
  proof (cases "length gmm = mNumGaussians f")
    case True
    with evict have K: "2 \<le> length gmm" and den: "1 + (mInitialWeight f - mWeight (last gmm)) \<noteq> 0"
      by simp_all
    from K have len: "butlast gmm \<noteq> []" by (cases gmm rule: rev_cases) auto
    from res nomatch True ne g wg len
    have gmm': "gmm' = normalizeWeights (real_ops e) (butlast gmm @ [g])
                         (1 / (1 + (mInitialWeight f - mWeight (last gmm))))"
      by (auto simp: findMatchAndUpdate_def Let_def split: if_splits)
    show ?thesis
      using den sum1 wg ne
      by (simp add: gmm' normalizeWeights_sum sum_weights_butlast algebra_simps)
  next
    case False
    with below have den: "1 + mInitialWeight f \<noteq> 0" by simp
    note len = ne
    from res nomatch False g wg len
    have gmm': "gmm' = normalizeWeights (real_ops e) (gmm @ [g]) (1 / (1 + mInitialWeight f))"
      by (auto simp: findMatchAndUpdate_def Let_def split: if_splits)
    show ?thesis
      using den sum1 wg by (simp add: gmm' normalizeWeights_sum)
  qed
qed

text \<open>
  Claim C1 at capacity one. The model holds one component of weight 1 and mean 10; the
  pixel 200 matches nothing, the model is at capacity \<open>K = 1\<close>, the component is
  evicted and \<^verbatim>\<open>weight\<close> becomes \<open>1/20 - 1\<close>; the model then has size one, so the
  scale factor is \<^verbatim>\<open>one/weight\<close> and the new component gets the weight \<open>-1/19\<close>: the
  weights summed to 1 before the call and sum to \<open>-1/19\<close> after it.
\<close>

theorem weight_sum_at_capacity_one:
  "findMatchAndUpdate env_release exact_ops evict_functor [gaussian1 1 10 36]
     (\<lambda>offset. mImage evict_functor (0 + offset)) = Inr ([gaussian1 (- 1 / 19) 200 36], 0) \<and>
   sum_list (map mWeight [gaussian1 1 10 36]) = 1 \<and>
   sum_list (map mWeight [gaussian1 (- 1 / 19) 200 36]) = - 1 / 19"
  by (simp add: kernel_eval fixture_defs)

subsection \<open>The percolation of the matched component\<close>

lemma swap_adjacent_append:
  "(zs @ y # x # ys)[Suc (length zs) := (zs @ y # x # ys) ! length zs,
                     length zs := (zs @ y # x # ys) ! Suc (length zs)] = zs @ x # y # ys"
  by (simp add: list_update_append nth_append)

lemma sortGaussians_append:
  "\<exists>xs1 xs2. xs = xs1 @ xs2 \<and>
     sortGaussians ops (xs @ x # ys) (length xs) = (xs1 @ x # xs2 @ ys, length xs1) \<and>
     (\<forall>y \<in> set xs2. gaussian_greater ops x y) \<and>
     (xs1 \<noteq> [] \<longrightarrow> \<not> gaussian_greater ops x (last xs1))"
proof (induction xs arbitrary: ys rule: rev_induct)
  case Nil
  show ?case by simp
next
  case (snoc y zs)
  show ?case
  proof (cases "gaussian_greater ops x y")
    case True
    from snoc [of "y # ys"] obtain xs1 xs2 where
      IH: "zs = xs1 @ xs2"
          "sortGaussians ops (zs @ x # y # ys) (length zs) = (xs1 @ x # xs2 @ y # ys, length xs1)"
          "\<forall>y \<in> set xs2. gaussian_greater ops x y"
          "xs1 \<noteq> [] \<longrightarrow> \<not> gaussian_greater ops x (last xs1)"
      by blast
    have "sortGaussians ops ((zs @ [y]) @ x # ys) (length (zs @ [y])) =
          sortGaussians ops (zs @ x # y # ys) (length zs)"
      using True swap_adjacent_append [of zs y x ys]
      by (simp add: nth_append)
    with IH True show ?thesis
      by (intro exI [of _ xs1] exI [of _ "xs2 @ [y]"]) simp
  next
    case False
    then have "sortGaussians ops ((zs @ [y]) @ x # ys) (length (zs @ [y])) =
               ((zs @ [y]) @ x # ys, length (zs @ [y]))"
      by (simp add: nth_append)
    with False show ?thesis
      by (intro exI [of _ "zs @ [y]"] exI [of _ "[]"]) simp
  qed
qed

lemma findMatchAndUpdate_matched:
  assumes m: "findMatch ops f gmm pixel = m" "m < length gmm"
    and res: "findMatchAndUpdate env ops f gmm pixel = Inr (gmm', m')"
  obtains g' xs1 xs2 where
    "update ops (gmm ! m) pixel (mLearningRate f) (mNumChannels f) (mNumPixels f) = Inr g'"
    "take m gmm = xs1 @ xs2"
    "gmm' = normalizeWeights ops (xs1 @ g' # xs2 @ drop (Suc m) gmm)
              (stat_div ops (stat_one ops)
                 (stat_add ops (stat_one ops)
                    (stat_mul ops (mLearningRate f)
                       (stat_sub ops (stat_one ops) (mWeight (gmm ! m))))))"
    "m' = length xs1"
    "\<forall>y \<in> set xs2. gaussian_greater ops g' y"
    "xs1 \<noteq> [] \<longrightarrow> \<not> gaussian_greater ops g' (last xs1)"
proof -
  let ?sf = "stat_div ops (stat_one ops)
               (stat_add ops (stat_one ops)
                  (stat_mul ops (mLearningRate f)
                     (stat_sub ops (stat_one ops) (mWeight (gmm ! m)))))"
  from res m obtain g' where
    upd: "update ops (gmm ! m) pixel (mLearningRate f) (mNumChannels f) (mNumPixels f) = Inr g'"
    and r: "gmm' = normalizeWeights ops (fst (sortGaussians ops (gmm[m := g']) m)) ?sf"
           "m' = snd (sortGaussians ops (gmm[m := g']) m)"
    by (auto simp: findMatchAndUpdate_def Let_def split: sum.splits prod.splits)
  have shape: "gmm[m := g'] = take m gmm @ g' # drop (Suc m) gmm"
    using m(2) by (rule upd_conv_take_nth_drop)
  have len: "length (take m gmm) = m" using m(2) by simp
  from sortGaussians_append [of "take m gmm" ops g' "drop (Suc m) gmm"] obtain xs1 xs2 where
    s: "take m gmm = xs1 @ xs2"
       "sortGaussians ops (take m gmm @ g' # drop (Suc m) gmm) (length (take m gmm)) =
          (xs1 @ g' # xs2 @ drop (Suc m) gmm, length xs1)"
       "\<forall>y \<in> set xs2. gaussian_greater ops g' y"
       "xs1 \<noteq> [] \<longrightarrow> \<not> gaussian_greater ops g' (last xs1)"
    by blast
  from s(2) have "sortGaussians ops (gmm[m := g']) m = (xs1 @ g' # xs2 @ drop (Suc m) gmm, length xs1)"
    by (simp only: shape len)
  with r have "gmm' = normalizeWeights ops (xs1 @ g' # xs2 @ drop (Suc m) gmm) ?sf" "m' = length xs1"
    by simp_all
  with upd s show thesis by (intro that)
qed

lemma exact_rank:
  assumes ex: "exact_arithmetic ops val" and pos: "0 < (\<Sum>v\<leftarrow>mVariance g. val v)"
  shows "val (rank ops g) = val (mWeight g) / sqrt (\<Sum>v\<leftarrow>mVariance g. val v)"
proof -
  let ?sumV = "accumulate ops (mVariance g) (stat_zero ops)"
  have v: "val ?sumV = (\<Sum>v\<leftarrow>mVariance g. val v)"
    using ex by (rule exact_accumulate)
  with pos ex have s: "val (stat_sqrt ops ?sumV) = sqrt (\<Sum>v\<leftarrow>mVariance g. val v)"
    by (simp add: exact_arithmetic_def)
  with pos have "val (stat_sqrt ops ?sumV) \<noteq> 0" by simp
  with ex have "val (stat_div ops (mWeight g) (stat_sqrt ops ?sumV)) =
                val (mWeight g) / val (stat_sqrt ops ?sumV)"
    by (simp add: exact_arithmetic_def)
  with s show ?thesis by (simp add: rank_def Let_def)
qed

lemma exact_rank_order_scaled:
  assumes ex: "exact_arithmetic ops val" and sf: "0 < val sf"
    and pg: "0 < (\<Sum>v\<leftarrow>mVariance g. val v)" and ph: "0 < (\<Sum>v\<leftarrow>mVariance h. val v)"
  shows "stat_le ops (rank ops (scaleWeight ops sf g)) (rank ops (scaleWeight ops sf h)) =
         stat_le ops (rank ops g) (rank ops h)"
proof -
  have le: "stat_le ops a b = (val a \<le> val b)" for a b
    using ex by (simp add: exact_arithmetic_def)
  have mul: "val (stat_mul ops a b) = val a * val b" for a b
    using ex by (simp add: exact_arithmetic_def)
  have sc: "val (rank ops (scaleWeight ops sf k)) = val sf * val (rank ops k)"
    if "0 < (\<Sum>v\<leftarrow>mVariance k. val v)" for k
  proof -
    from that have "0 < (\<Sum>v\<leftarrow>mVariance (scaleWeight ops sf k). val v)"
      by (simp add: scaleWeight_def)
    from exact_rank [OF ex this] exact_rank [OF ex that] show ?thesis
      by (simp add: scaleWeight_def mul)
  qed
  show ?thesis
    unfolding le sc [OF pg] sc [OF ph]
    using sf by (rule mult_le_cancel_left_pos)
qed

text \<open>
  Claim C10, as the code has it. When \<^verbatim>\<open>findMatchAndUpdate\<close> finds a match at index
  \<open>m\<close>, the matched component moves to an index \<open>m' \<le> m\<close> and is the updated component
  with its weight scaled; the other components, in their order, are the other components
  of the old model with every weight multiplied (in \<^verbatim>\<open>stat_type\<close>) by the one scale
  factor, so their means and variances are unchanged. This holds in every arithmetic.
  In an exact arithmetic and for a positive scale factor, every comparison of ranks
  between two of the other components whose variances have a positive sum is preserved.
\<close>

theorem matched_update_frame:
  assumes "findMatch ops f gmm pixel = m" and "m < length gmm"
    and "findMatchAndUpdate env ops f gmm pixel = Inr (gmm', m')"
  shows "\<exists>g'. update ops (gmm ! m) pixel (mLearningRate f) (mNumChannels f) (mNumPixels f) = Inr g' \<and>
     (let one = stat_one ops;
          scaleFactor =
            stat_div ops one
              (stat_add ops one
                 (stat_mul ops (mLearningRate f) (stat_sub ops one (mWeight (gmm ! m)))));
          others = take m gmm @ drop (Suc m) gmm;
          others' = take m' gmm' @ drop (Suc m') gmm'
      in m' \<le> m \<and> length gmm' = length gmm \<and>
         gmm' ! m' = scaleWeight ops scaleFactor g' \<and>
         others' = map (scaleWeight ops scaleFactor) others \<and>
         (\<forall>i < length others.
            mMean (others' ! i) = mMean (others ! i) \<and>
            mVariance (others' ! i) = mVariance (others ! i) \<and>
            mWeight (others' ! i) = stat_mul ops (mWeight (others ! i)) scaleFactor) \<and>
         (\<forall>val. exact_arithmetic ops val \<and> 0 < val scaleFactor \<longrightarrow>
            (\<forall>i < length others. \<forall>j < length others.
               0 < (\<Sum>v\<leftarrow>mVariance (others ! i). val v) \<and>
               0 < (\<Sum>v\<leftarrow>mVariance (others ! j). val v) \<longrightarrow>
               stat_le ops (rank ops (others' ! i)) (rank ops (others' ! j)) =
               stat_le ops (rank ops (others ! i)) (rank ops (others ! j)))))"
proof -
  let ?sf = "stat_div ops (stat_one ops)
               (stat_add ops (stat_one ops)
                  (stat_mul ops (mLearningRate f)
                     (stat_sub ops (stat_one ops) (mWeight (gmm ! m)))))"
  let ?ys = "drop (Suc m) gmm"
  from assms obtain g' xs1 xs2 where
    upd: "update ops (gmm ! m) pixel (mLearningRate f) (mNumChannels f) (mNumPixels f) = Inr g'"
    and split: "take m gmm = xs1 @ xs2"
    and gmm': "gmm' = normalizeWeights ops (xs1 @ g' # xs2 @ ?ys) ?sf"
    and m': "m' = length xs1"
    by (rule findMatchAndUpdate_matched)
  have lenm: "length xs1 + length xs2 = m"
    using split assms(2) by (metis length_append length_take min.absorb2 less_imp_le)
  have gmm'_app: "gmm' = map (scaleWeight ops ?sf) xs1 @ scaleWeight ops ?sf g' #
                           map (scaleWeight ops ?sf) (xs2 @ ?ys)"
    by (simp add: gmm' normalizeWeights_def)
  have a: "m' \<le> m" using m' lenm by simp
  have b: "length gmm' = length gmm"
    using lenm assms(2) by (simp add: gmm'_app)
  have c: "gmm' ! m' = scaleWeight ops ?sf g'"
    by (simp add: gmm'_app m' nth_append)
  have d: "take m' gmm' @ drop (Suc m') gmm' = map (scaleWeight ops ?sf) (take m gmm @ ?ys)"
    by (simp add: gmm'_app m' split)
  have e: "mMean (map (scaleWeight ops ?sf) xs ! i) = mMean (xs ! i) \<and>
           mVariance (map (scaleWeight ops ?sf) xs ! i) = mVariance (xs ! i) \<and>
           mWeight (map (scaleWeight ops ?sf) xs ! i) = stat_mul ops (mWeight (xs ! i)) ?sf"
    if "i < length xs" for xs i
    using that by (simp add: scaleWeight_def)
  have f: "stat_le ops (rank ops (map (scaleWeight ops ?sf) xs ! i))
                       (rank ops (map (scaleWeight ops ?sf) xs ! j)) =
           stat_le ops (rank ops (xs ! i)) (rank ops (xs ! j))"
    if "exact_arithmetic ops val" "0 < val ?sf" "i < length xs" "j < length xs"
       "0 < (\<Sum>v\<leftarrow>mVariance (xs ! i). val v)" "0 < (\<Sum>v\<leftarrow>mVariance (xs ! j). val v)"
    for val xs i j
    using exact_rank_order_scaled [OF that(1,2,5,6)] that(3,4) by simp
  show ?thesis
    unfolding Let_def d
    using upd a b c e f by blast
qed

theorem matched_update_frame_witness:
  "findMatch exact_ops scene_functor
     [gaussian1 (40 / 100) 10 36, gaussian1 (39 / 100) 128 36, gaussian1 (21 / 100) 250 36]
     (\<lambda>a. 134) = 1 \<and>
   findMatchAndUpdate env_release exact_ops scene_functor
     [gaussian1 (40 / 100) 10 36, gaussian1 (39 / 100) 128 36, gaussian1 (21 / 100) 250 36]
     (\<lambda>a. 134) =
     Inr ([\<lparr>mWeight = 841 / 2061, mMean = [1283 / 10], mVariance = [36]\<rparr>,
           gaussian1 (800 / 2061) 10 36, gaussian1 (420 / 2061) 250 36], 0) \<and>
   update exact_ops (gaussian1 (39 / 100) 128 36) (\<lambda>a. 134) (1 / 20) 1 1 =
     Inr \<lparr>mWeight = 841 / 2000, mMean = [1283 / 10], mVariance = [36]\<rparr> \<and>
   [gaussian1 (800 / 2061) 10 36, gaussian1 (420 / 2061) 250 36] =
     map (scaleWeight exact_ops (2000 / 2061))
       [gaussian1 (40 / 100) 10 36, gaussian1 (21 / 100) 250 36] \<and>
   exact_arithmetic exact_ops (\<lambda>x. x) \<and> (0 :: real) < 2000 / 2061 \<and>
   stat_le exact_ops (rank exact_ops (gaussian1 (420 / 2061) 250 36))
                     (rank exact_ops (gaussian1 (800 / 2061) 10 36)) =
   stat_le exact_ops (rank exact_ops (gaussian1 (21 / 100) 250 36))
                     (rank exact_ops (gaussian1 (40 / 100) 10 36))"
proof -
  let ?G = "[gaussian1 (40 / 100) 10 36, gaussian1 (39 / 100) 128 36, gaussian1 (21 / 100) 250 36]"
  let ?G' = "[\<lparr>mWeight = 841 / 2061, mMean = [1283 / 10], mVariance = [36]\<rparr>,
              gaussian1 (800 / 2061) 10 36, gaussian1 (420 / 2061) 250 36]"
  have m: "findMatch exact_ops scene_functor ?G (\<lambda>a. 134) = 1"
    by (simp add: kernel_eval fixture_defs)
  have lt: "(1::nat) < length ?G" by simp
  have res: "findMatchAndUpdate env_release exact_ops scene_functor ?G (\<lambda>a. 134) = Inr (?G', 0)"
    by (simp add: kernel_eval fixture_defs)
  have ex: "exact_arithmetic exact_ops (\<lambda>x. x)"
    unfolding exact_ops_def by (rule exact_arithmetic_real_ops)
  from matched_update_frame [OF m lt res] m res ex show ?thesis
    by (simp add: kernel_eval fixture_defs)
qed

text \<open>
  With the learning rate \<open>-2\<close> (the entry point accepts any value) and a matched
  component of weight 0.2 the scale factor is \<open>-5/3\<close>: among the two components that
  are not matched, the first ranks above the second before the call and below it after
  the call.
\<close>

theorem rank_order_reversed:
  "findMatch exact_ops (scene_functor\<lparr>mLearningRate := - 2\<rparr>)
     [gaussian1 (1 / 2) 10 36, gaussian1 (3 / 10) 128 36, gaussian1 (1 / 5) 200 36]
     (\<lambda>a. 206) = 2 \<and>
   findMatchAndUpdate env_release exact_ops (scene_functor\<lparr>mLearningRate := - 2\<rparr>)
     [gaussian1 (1 / 2) 10 36, gaussian1 (3 / 10) 128 36, gaussian1 (1 / 5) 200 36]
     (\<lambda>a. 206) =
     Inr ([gaussian1 (- 5 / 6) 10 36, gaussian1 (- 1 / 2) 128 36,
           gaussian1 (7 / 3) 188 36], 2) \<and>
   stat_less exact_ops (rank exact_ops (gaussian1 (3 / 10) 128 36))
                       (rank exact_ops (gaussian1 (1 / 2) 10 36)) \<and>
   stat_less exact_ops (rank exact_ops (gaussian1 (- 5 / 6) 10 36))
                       (rank exact_ops (gaussian1 (- 1 / 2) 128 36)) \<and>
   \<not> stat_le exact_ops (rank exact_ops (gaussian1 (- 1 / 2) 128 36))
                       (rank exact_ops (gaussian1 (- 5 / 6) 10 36))"
  by (simp add: kernel_eval fixture_defs)

text \<open>
  The comparison of ranks is not preserved by a rounded arithmetic, even for a positive
  scale factor. In the coarse arithmetic above, with the learning rate 1 and a matched
  component of weight \<open>1/8\<close>, the scale factor is \<open>1/2\<close>; the two components that are
  not matched both have the rank \<open>1/8\<close> before the call, and the ranks \<open>1/8\<close> and 0
  after it.
\<close>

lemma sqrt_16: "sqrt 16 = 4"
  by (rule real_sqrt_unique) simp_all

lemma rank_order_lost_by_rounding:
  "findMatch grid_ops (scene_functor\<lparr>mLearningRate := 1\<rparr>)
     [\<lparr>mWeight = 1 / 8, mMean = [0], mVariance = [1]\<rparr>,
      \<lparr>mWeight = 1 / 4, mMean = [0], mVariance = [16]\<rparr>,
      \<lparr>mWeight = 1 / 8, mMean = [99], mVariance = [1]\<rparr>] (\<lambda>a. 100) = 2 \<and>
   findMatchAndUpdate env_release grid_ops (scene_functor\<lparr>mLearningRate := 1\<rparr>)
     [\<lparr>mWeight = 1 / 8, mMean = [0], mVariance = [1]\<rparr>,
      \<lparr>mWeight = 1 / 4, mMean = [0], mVariance = [16]\<rparr>,
      \<lparr>mWeight = 1 / 8, mMean = [99], mVariance = [1]\<rparr>] (\<lambda>a. 100) =
     Inr ([\<lparr>mWeight = 1 / 2, mMean = [100], mVariance = [1]\<rparr>,
           \<lparr>mWeight = 1 / 8, mMean = [0], mVariance = [1]\<rparr>,
           \<lparr>mWeight = 1 / 8, mMean = [0], mVariance = [16]\<rparr>], 0) \<and>
   stat_div grid_ops 1 (stat_add grid_ops 1 (stat_mul grid_ops 1 (stat_sub grid_ops 1 (1 / 8)))) =
     1 / 2 \<and>
   rank grid_ops \<lparr>mWeight = 1 / 8, mMean = [0], mVariance = [1]\<rparr> = 1 / 8 \<and>
   rank grid_ops \<lparr>mWeight = 1 / 4, mMean = [0], mVariance = [16]\<rparr> = 1 / 8 \<and>
   rank grid_ops \<lparr>mWeight = 1 / 8, mMean = [0], mVariance = [16]\<rparr> = 0"
  by (simp add: kernel_eval fixture_defs sqrt_16)

subsection \<open>Ranking\<close>

text \<open>
  Claim C4 does not hold of the code. A model of two components with the weights 0.99
  and 0.01 and equal variances is ranked. The pixel 200 matches neither component and
  the model is below its capacity of three, so a component with the initial weight 0.05
  is appended at the end, below the component of weight 0.01, and it is not moved:
  \<^verbatim>\<open>sortGaussians\<close> is called in the branch of a match only. After the
  renormalization (evaluated in exact arithmetic) the weights are \<open>33/35\<close>, \<open>1/105\<close>
  and \<open>1/21\<close> over equal variances: the last component ranks strictly above its
  predecessor and the model returned is not ranked.
\<close>

theorem ranking_broken_by_append:
  "ranked exact_ops [gaussian1 (99 / 100) 128 36, gaussian1 (1 / 100) 10 36] \<and>
   findMatch exact_ops scene_functor
     [gaussian1 (99 / 100) 128 36, gaussian1 (1 / 100) 10 36] (\<lambda>a. 200) = 2 \<and>
   findMatchAndUpdate env_release exact_ops scene_functor
     [gaussian1 (99 / 100) 128 36, gaussian1 (1 / 100) 10 36] (\<lambda>a. 200) =
     Inr ([gaussian1 (33 / 35) 128 36, gaussian1 (1 / 105) 10 36, gaussian1 (1 / 21) 200 36], 2) \<and>
   stat_less exact_ops (rank exact_ops (gaussian1 (1 / 105) 10 36))
                       (rank exact_ops (gaussian1 (1 / 21) 200 36)) \<and>
   \<not> ranked exact_ops
       [gaussian1 (33 / 35) 128 36, gaussian1 (1 / 105) 10 36, gaussian1 (1 / 21) 200 36]"
  by (simp add: ranked_def kernel_eval fixture_defs)

subsection \<open>Capacity\<close>

lemma findMatchAndUpdate_length_matched:
  assumes "findMatch ops f gmm pixel \<noteq> length gmm"
    and "findMatchAndUpdate env ops f gmm pixel = Inr (gmm', m')"
  shows "length gmm' = length gmm \<and> m' < length gmm'"
proof -
  from assms(1) findMatch_le [of ops f gmm pixel] have lt: "findMatch ops f gmm pixel < length gmm" by simp
  from refl lt assms(2) obtain g' xs1 xs2 where
    "take (findMatch ops f gmm pixel) gmm = xs1 @ xs2"
    "gmm' = normalizeWeights ops (xs1 @ g' # xs2 @ drop (Suc (findMatch ops f gmm pixel)) gmm)
              (stat_div ops (stat_one ops)
                 (stat_add ops (stat_one ops)
                    (stat_mul ops (mLearningRate f)
                       (stat_sub ops (stat_one ops) (mWeight (gmm ! findMatch ops f gmm pixel))))))"
    "m' = length xs1"
    by (rule findMatchAndUpdate_matched)
  moreover from this(1) lt have "length xs1 + length xs2 = findMatch ops f gmm pixel"
    by (metis length_append length_take min.absorb2 less_imp_le)
  ultimately show ?thesis using lt by (simp add: normalizeWeights_def) arith
qed

lemma findMatchAndUpdate_unmatched:
  assumes "findMatch ops f gmm pixel = length gmm"
    and "findMatchAndUpdate env ops f gmm pixel = Inr (gmm', m')"
  shows "\<exists>g scaleFactor.
           gmm' = normalizeWeights ops
                    ((if gmm \<noteq> [] \<and> length gmm = mNumGaussians f then butlast gmm else gmm) @ [g])
                    scaleFactor \<and>
           mWeight g = mInitialWeight f \<and>
           mMean g = map (\<lambda>i. pixel (i * mNumPixels f)) [0..<mNumChannels f] \<and>
           mVariance g = replicate (mNumChannels f) (mInitialVariance f) \<and>
           m' = length gmm' - 1"
proof -
  let ?popped = "gmm \<noteq> [] \<and> length gmm = mNumGaussians f"
  let ?kept = "if ?popped then butlast gmm else gmm"
  let ?weight = "if ?popped then stat_sub ops (mInitialWeight f) (mWeight (last gmm))
                 else mInitialWeight f"
  let ?mean = "map (\<lambda>i. pixel (i * mNumPixels f)) [0..<mNumChannels f]"
  let ?sf = "if length ?kept = 0 then stat_div ops (stat_one ops) ?weight
             else stat_div ops (stat_one ops) (stat_add ops (stat_one ops) ?weight)"
  from assms obtain g where
    g: "WeightedGaussian_init env ops (mNumChannels f) (mInitialWeight f) ?mean (mInitialVariance f) = Inr g"
    by (auto simp: findMatchAndUpdate_def Let_def split: sum.splits if_splits)
  from assms g have r: "gmm' = normalizeWeights ops (?kept @ [g]) ?sf" "m' = length (?kept @ [g]) - 1"
    by (simp_all add: findMatchAndUpdate_def Let_def split: if_splits)
  from g have "mWeight g = mInitialWeight f" "mMean g = ?mean"
    "mVariance g = replicate (mNumChannels f) (mInitialVariance f)"
    by (auto simp: WeightedGaussian_init_def split: if_splits)
  moreover from r have "m' = length gmm' - 1" by (simp add: normalizeWeights_def)
  ultimately show ?thesis using r(1) by blast
qed

lemma findMatchAndUpdate_capacity:
  assumes "1 \<le> mNumGaussians f" and "length gmm \<le> mNumGaussians f"
    and "findMatchAndUpdate env ops f gmm pixel = Inr (gmm', m')"
  shows "length gmm' \<le> mNumGaussians f"
proof (cases "findMatch ops f gmm pixel = length gmm")
  case False
  with assms(3) have "length gmm' = length gmm"
    using findMatchAndUpdate_length_matched by blast
  with assms(2) show ?thesis by simp
next
  case True
  from findMatchAndUpdate_unmatched [OF True assms(3)] obtain g sf where
    "gmm' = normalizeWeights ops
              ((if gmm \<noteq> [] \<and> length gmm = mNumGaussians f then butlast gmm else gmm) @ [g]) sf"
    by blast
  with assms(1,2) show ?thesis
    by (cases "gmm = []") (auto simp: normalizeWeights_def)
qed

lemma detectForeground_capacity:
  assumes "1 \<le> mNumGaussians f" and "length gmm \<le> mNumGaussians f"
    and "detectForeground env ops f gmm pixel = Inr (gmm', b)"
  shows "length gmm' \<le> mNumGaussians f"
  using assms findMatchAndUpdate_capacity [of f gmm env ops pixel]
  by (auto simp: detectForeground_def split: sum.splits prod.splits)

lemma runAlgorithm_capacity:
  assumes "1 \<le> mNumGaussians f"
    and "\<forall>pm \<in> set (fst st). length (fst pm) \<le> mNumGaussians f"
    and "runAlgorithm env ops f pid endId st = Inr st'"
  shows "\<forall>pm \<in> set (fst st'). length (fst pm) \<le> mNumGaussians f"
  using assms
proof (induction env ops f pid endId st rule: runAlgorithm.induct)
  case (1 env ops f pid endId st)
  show ?case
  proof (cases "pid \<noteq> endId")
    case False
    with "1.prems" show ?thesis by (simp add: runAlgorithm.simps)
  next
    case True
    with "1.prems"(3) have inr: "pid < length (fst st)"
      by (simp add: runAlgorithm.simps [of _ _ _ pid] split: if_splits)
    from True inr "1.prems"(3) obtain gmm' b where
      det: "detectForeground env ops f (fst (fst st ! pid)) (\<lambda>offset. mImage f (pid + offset)) = Inr (gmm', b)"
      and rec: "runAlgorithm env ops f (Suc pid) endId
                  ((fst st)[pid := (gmm', snd (fst st ! pid))], (snd st)(pid := b)) = Inr st'"
      by (auto simp: runAlgorithm.simps [of _ _ _ pid] split: sum.splits)
    from inr "1.prems"(2) have "length (fst (fst st ! pid)) \<le> mNumGaussians f" by simp
    from detectForeground_capacity [OF "1.prems"(1) this det]
    have "length gmm' \<le> mNumGaussians f" .
    with "1.prems"(2)
    have inv: "\<forall>pm \<in> set (fst ((fst st)[pid := (gmm', snd (fst st ! pid))], (snd st)(pid := b))).
                 length (fst pm) \<le> mNumGaussians f"
      by (auto dest!: set_update_subset_insert [THEN subsetD])
    from "1.IH" [OF True inr det refl "1.prems"(1) inv rec] show ?thesis .
  qed
qed

lemma initializeImpl_result:
  assumes "initializeImpl env d dims K iv iw vt mbr = Inr d'"
  shows "2 \<le> length dims \<and>
         mGMMPtr (mFtor d') \<and>
         mNumGaussians (mFtor d') = K \<and>
         mNumPixels (mFtor d') = mwSize_wrap env (dims ! 0 * dims ! 1) \<and>
         mNumChannels (mFtor d') = (if length dims > 2 then dims ! 2 else 1) \<and>
         mGMMVec d' = map (\<lambda>i. ([], i)) [0..<mNumPixels (mFtor d')]"
  using assms
  by (auto simp: initializeImpl_def functor_setup_def setProperties_def Let_def
           split: sum.splits if_splits)

lemma stepImpl_capacity:
  assumes "1 \<le> mNumGaussians (mFtor d)"
    and "\<forall>pm \<in> set (mGMMVec d). length (fst pm) \<le> mNumGaussians (mFtor d)"
    and "stepImpl env ops d inImage learningRate fgMask = Inr (d', fgMask')"
  shows "mNumGaussians (mFtor d') = mNumGaussians (mFtor d) \<and>
         (\<forall>pm \<in> set (mGMMVec d'). length (fst pm) \<le> mNumGaussians (mFtor d))"
proof -
  let ?f = "setStepInput (mFtor d) inImage learningRate"
  have K: "mNumGaussians ?f = mNumGaussians (mFtor d)" by (simp add: setStepInput_def)
  from assms(3) obtain vec where
    run: "runAlgorithm env ops ?f 0 (mNumPixels ?f) (mGMMVec d, fgMask) = Inr (vec, fgMask')"
    and d': "d' = \<lparr>mFtor = ?f, mGMMVec = vec\<rparr>"
    by (auto simp: stepImpl_def functor_call_def Let_def split: sum.splits if_splits)
  from runAlgorithm_capacity [of ?f "(mGMMVec d, fgMask)" env ops 0 "mNumPixels ?f" "(vec, fgMask')"]
    assms(1,2) run K
  have "\<forall>pm \<in> set vec. length (fst pm) \<le> mNumGaussians (mFtor d)" by simp
  with d' K show ?thesis by simp
qed

lemma steps_capacity:
  assumes "1 \<le> mNumGaussians (mFtor d)"
    and "\<forall>pm \<in> set (mGMMVec d). length (fst pm) \<le> mNumGaussians (mFtor d)"
    and "steps env ops d frames fgMask = Inr (d', fgMask')"
  shows "\<forall>pm \<in> set (mGMMVec d'). length (fst pm) \<le> mNumGaussians (mFtor d)"
  using assms
proof (induction frames arbitrary: d fgMask)
  case Nil
  then show ?case by simp
next
  case (Cons frame frames)
  from Cons.prems(3) obtain d1 mask1 where
    s1: "stepImpl env ops d (fst frame) (snd frame) fgMask = Inr (d1, mask1)"
    and rest: "steps env ops d1 frames mask1 = Inr (d', fgMask')"
    by (auto split: sum.splits)
  from stepImpl_capacity [OF Cons.prems(1,2) s1]
  have K: "mNumGaussians (mFtor d1) = mNumGaussians (mFtor d)"
    and inv: "\<forall>pm \<in> set (mGMMVec d1). length (fst pm) \<le> mNumGaussians (mFtor d)"
    by simp_all
  from Cons.IH [of d1 mask1] Cons.prems(1) K inv rest show ?case by simp
qed

text \<open>
  Claim C5, as the code has it. For a configured capacity \<open>K \<ge> 1\<close>, a detector that
  is initialised (every model empty) and then stepped through any sequence of frames
  never holds more than \<open>K\<close> components in any pixel model. On an unmatched pixel a
  component is appended; when the model is non-empty and holds exactly \<open>K\<close> components
  its last component is removed first, and the new component is the last one.
\<close>

theorem capacity_invariant:
  assumes "1 \<le> K"
    and "initializeImpl env d0 dims K initialVariance initialWeight varianceThreshold minBGRatio = Inr d"
    and "steps env ops d frames fgMask = Inr (d', fgMask')"
  shows "(\<forall>pm \<in> set (mGMMVec d'). length (fst pm) \<le> K) \<and>
         (\<forall>gmm pixel gmm' m'.
            findMatch ops (mFtor d') gmm pixel = length gmm \<and>
            findMatchAndUpdate env ops (mFtor d') gmm pixel = Inr (gmm', m') \<longrightarrow>
            length gmm' = (if gmm \<noteq> [] \<and> length gmm = K then K else length gmm + 1) \<and>
            map mMean (butlast gmm') =
              map mMean (if gmm \<noteq> [] \<and> length gmm = K then butlast gmm else gmm) \<and>
            m' = length gmm' - 1)"
proof -
  from initializeImpl_result [OF assms(2)]
  have K: "mNumGaussians (mFtor d) = K"
    and vec: "mGMMVec d = map (\<lambda>i. ([], i)) [0..<mNumPixels (mFtor d)]"
    by simp_all
  from vec have empty: "\<forall>pm \<in> set (mGMMVec d). length (fst pm) \<le> mNumGaussians (mFtor d)"
    by auto
  from steps_capacity [OF _ empty assms(3)] assms(1) K
  have cap: "\<forall>pm \<in> set (mGMMVec d'). length (fst pm) \<le> K" by simp
  have K': "mNumGaussians (mFtor d') = K"
    using assms(3) K
  proof (induction frames arbitrary: d fgMask)
    case Nil
    then show ?case by simp
  next
    case (Cons frame frames)
    from Cons.prems(1) obtain d1 mask1 where
      s1: "stepImpl env ops d (fst frame) (snd frame) fgMask = Inr (d1, mask1)"
      and rest: "steps env ops d1 frames mask1 = Inr (d', fgMask')"
      by (auto split: sum.splits)
    from s1 have "mNumGaussians (mFtor d1) = mNumGaussians (mFtor d)"
      by (auto simp: stepImpl_def setStepInput_def Let_def split: sum.splits)
    with Cons.IH [OF rest] Cons.prems(2) show ?case by simp
  qed
  have evict: "length gmm' = (if gmm \<noteq> [] \<and> length gmm = K then K else length gmm + 1) \<and>
            map mMean (butlast gmm') =
              map mMean (if gmm \<noteq> [] \<and> length gmm = K then butlast gmm else gmm) \<and>
            m' = length gmm' - 1"
    if "findMatch ops (mFtor d') gmm pixel = length gmm"
       "findMatchAndUpdate env ops (mFtor d') gmm pixel = Inr (gmm', m')"
    for gmm pixel gmm' m'
  proof -
    from findMatchAndUpdate_unmatched [OF that] K' obtain g sf where
      g: "gmm' = normalizeWeights ops ((if gmm \<noteq> [] \<and> length gmm = K then butlast gmm else gmm) @ [g]) sf"
         "m' = length gmm' - 1"
      by auto
    have "map mMean (normalizeWeights ops xs sf) = map mMean xs" for xs
      by (simp add: normalizeWeights_def scaleWeight_def)
    moreover have "butlast (normalizeWeights ops (xs @ [g]) sf) = normalizeWeights ops xs sf" for xs
      by (simp add: normalizeWeights_def butlast_append)
    ultimately show ?thesis using g assms(1)
      by (cases "gmm = []") (auto simp: normalizeWeights_def)
  qed
  from cap evict show ?thesis by blast
qed

theorem capacity_invariant_witness:
  "initializeImpl env_release (ForegroundDetectorImpl_new scene_functor) [1, 1] 1
     36 (1 / 20) (25 / 4) (7 / 10) = Inr (scene_detector 1) \<and>
   steps env_release exact_ops (scene_detector 1) [(\<lambda>a. 10, 1 / 20), (\<lambda>a. 200, 1 / 20)] (\<lambda>a. True) =
     Inr (\<lparr>mFtor = scene_functor\<lparr>mNumGaussians := 1, mImage := \<lambda>a. 200\<rparr>,
           mGMMVec = [([gaussian1 (- 1 / 19) 200 36], 0)]\<rparr>,
          (\<lambda>a. True)(0 := False)) \<and>
   length [gaussian1 (- 1 / 19) 200 36] \<le> 1"
proof -
  have K: "(1::nat) \<le> 1" by simp
  have init: "initializeImpl env_release (ForegroundDetectorImpl_new scene_functor) [1, 1] 1
     36 (1 / 20) (25 / 4) (7 / 10) = Inr (scene_detector 1)"
    by (simp add: store_eval fixture_defs)
  have run: "steps env_release exact_ops (scene_detector 1) [(\<lambda>a. 10, 1 / 20), (\<lambda>a. 200, 1 / 20)] (\<lambda>a. True) =
     Inr (\<lparr>mFtor = scene_functor\<lparr>mNumGaussians := 1, mImage := \<lambda>a. 200\<rparr>,
           mGMMVec = [([gaussian1 (- 1 / 19) 200 36], 0)]\<rparr>,
          (\<lambda>a. True)(0 := False))"
    by (simp add: store_eval kernel_eval fixture_defs)
  from capacity_invariant [OF K init run] init run show ?thesis by simp
qed

text \<open>
  With the capacity \<open>K = 0\<close> the detector initialises, and the first frame gives the
  pixel one component: the guard \<^verbatim>\<open>!gmm.empty()\<close> skips the eviction on the empty
  model.
\<close>

theorem capacity_zero_exceeded:
  "initializeImpl env_release (ForegroundDetectorImpl_new scene_functor) [1, 1] 0
     36 (1 / 20) (25 / 4) (7 / 10) = Inr (scene_detector 0) \<and>
   steps env_release exact_ops (scene_detector 0) [(\<lambda>a. 128, 1 / 20)] (\<lambda>a. True) =
     Inr (\<lparr>mFtor = scene_functor\<lparr>mNumGaussians := 0\<rparr>,
           mGMMVec = [([gaussian1 1 128 36], 0)]\<rparr>,
          (\<lambda>a. True)(0 := False)) \<and>
   \<not> length [gaussian1 1 128 36] \<le> 0"
  by (simp add: store_eval kernel_eval fixture_defs)

subsection \<open>Initialisation\<close>

text \<open>
  Claim C6, as the code has it. \<^verbatim>\<open>initialize\<close> does not examine \<^verbatim>\<open>numGaussians\<close>:
  with at least two dimensions the call succeeds for every value of it, zero included,
  whenever the pixel count and \<^verbatim>\<open>numGaussians\<close> stay within the \<^verbatim>\<open>max_size()\<close> of the
  store and of a model and the allocations of the call succeed (the vector of
  dimensions, the store, and the reserve in every model when there is something to
  reserve); the model pointer is then set and the store holds one empty model per pixel.
  With fewer than two dimensions a build without \<^verbatim>\<open>NDEBUG\<close> fails the assertion of
  \<^verbatim>\<open>setup\<close> (once the vector of dimensions is allocated), and a negative number of
  dimensions fails in the construction of that vector. When the allocation of the
  vector of dimensions or of the store is refused, the call fails with the exception of
  the allocation.
\<close>

theorem initialize_without_validation:
  "(let P = mwSize_wrap env (mwSize_of_int32 env (dims 0) * mwSize_of_int32 env (dims 1));
        K = mwSize_of_int32 env numGaussians;
        call = foregroundDetector_initialize env fgObj numberOfDims dims numGaussians
                 initialVariance initialWeight varianceThreshold minBGRatio
    in (2 \<le> numberOfDims \<and> Allocates env (DimsVector (nat numberOfDims)) \<and>
        P \<le> GMMVector_max_size env \<and>
        (0 < P \<longrightarrow> Allocates env (ModelStore P) \<and> K \<le> GaussianMixtureModel_max_size env) \<and>
        (0 < P \<and> 0 < K \<longrightarrow> Allocates env (ModelCapacity P K)) \<longrightarrow>
          (\<exists>d'. call = Inr d' \<and>
                mGMMPtr (mFtor d') \<and>
                mNumGaussians (mFtor d') = K \<and>
                mNumPixels (mFtor d') = P \<and>
                mGMMVec d' = map (\<lambda>i. ([], i)) [0..<P])) \<and>
       (0 \<le> numberOfDims \<and> numberOfDims < 2 \<and> \<not> NDEBUG env \<and>
        (numberOfDims = 1 \<longrightarrow> Allocates env (DimsVector 1)) \<longrightarrow>
          call = Inl AssertionFailed) \<and>
       (numberOfDims < 0 \<longrightarrow> call = Inl LengthError) \<and>
       (2 \<le> numberOfDims \<and> \<not> Allocates env (DimsVector (nat numberOfDims)) \<longrightarrow>
          call = Inl AllocationFailed) \<and>
       (2 \<le> numberOfDims \<and> Allocates env (DimsVector (nat numberOfDims)) \<and>
        P \<le> GMMVector_max_size env \<and> 0 < P \<and> \<not> Allocates env (ModelStore P) \<longrightarrow>
          call = Inl AllocationFailed))"
proof -
  let ?P = "mwSize_wrap env (mwSize_of_int32 env (dims 0) * mwSize_of_int32 env (dims 1))"
  let ?K = "mwSize_of_int32 env numGaussians"
  let ?call = "foregroundDetector_initialize env fgObj numberOfDims dims numGaussians
                 initialVariance initialWeight varianceThreshold minBGRatio"
  let ?dVec = "map (\<lambda>i. mwSize_of_int32 env (dims i)) [0..<nat numberOfDims]"
  have ok: "\<exists>d'. ?call = Inr d' \<and> mGMMPtr (mFtor d') \<and> mNumGaussians (mFtor d') = ?K \<and>
                 mNumPixels (mFtor d') = ?P \<and> mGMMVec d' = map (\<lambda>i. ([], i)) [0..<?P]"
    if a: "2 \<le> numberOfDims \<and> Allocates env (DimsVector (nat numberOfDims)) \<and>
           ?P \<le> GMMVector_max_size env \<and>
           (0 < ?P \<longrightarrow> Allocates env (ModelStore ?P) \<and> ?K \<le> GaussianMixtureModel_max_size env) \<and>
           (0 < ?P \<and> 0 < ?K \<longrightarrow> Allocates env (ModelCapacity ?P ?K))"
  proof -
    from a have n: "2 \<le> numberOfDims" by simp
    from n have len: "2 \<le> length ?dVec" "length ?dVec = nat numberOfDims" by simp_all
    from n have d0: "?dVec ! 0 = mwSize_of_int32 env (dims 0)"
      and d1: "?dVec ! 1 = mwSize_of_int32 env (dims 1)"
      by (simp_all del: upt_Suc)
    from n have ne: "?dVec \<noteq> []" "\<not> numberOfDims < 0" "0 < numberOfDims" by auto
    from a len d0 d1 ne show ?thesis
      by (cases "?P = 0"; cases "?K = 0")
         (simp_all add: foregroundDetector_initialize_def initializeImpl_def functor_setup_def
                        setProperties_def Let_def del: upt_Suc)
  qed
  have few: "?call = Inl AssertionFailed"
    if a: "0 \<le> numberOfDims \<and> numberOfDims < 2 \<and> \<not> NDEBUG env \<and>
           (numberOfDims = 1 \<longrightarrow> Allocates env (DimsVector 1))"
  proof -
    from a have "numberOfDims = 0 \<or> numberOfDims = 1" by arith
    then show ?thesis
    proof
      assume "numberOfDims = 0"
      with a show ?thesis
        by (simp add: foregroundDetector_initialize_def initializeImpl_def functor_setup_def Let_def)
    next
      assume "numberOfDims = 1"
      with a show ?thesis
        by (simp add: foregroundDetector_initialize_def initializeImpl_def functor_setup_def Let_def)
    qed
  qed
  have neg: "?call = Inl LengthError" if "numberOfDims < 0"
    using that by (simp add: foregroundDetector_initialize_def)
  have nodims: "?call = Inl AllocationFailed"
    if "2 \<le> numberOfDims \<and> \<not> Allocates env (DimsVector (nat numberOfDims))"
    using that by (simp add: foregroundDetector_initialize_def)
  have nostore: "?call = Inl AllocationFailed"
    if a: "2 \<le> numberOfDims \<and> Allocates env (DimsVector (nat numberOfDims)) \<and>
           ?P \<le> GMMVector_max_size env \<and> 0 < ?P \<and> \<not> Allocates env (ModelStore ?P)"
  proof -
    from a have n: "2 \<le> numberOfDims" by simp
    from n have len: "2 \<le> length ?dVec" "length ?dVec = nat numberOfDims" by simp_all
    from n have d0: "?dVec ! 0 = mwSize_of_int32 env (dims 0)"
      and d1: "?dVec ! 1 = mwSize_of_int32 env (dims 1)"
      by (simp_all del: upt_Suc)
    from n have ne: "?dVec \<noteq> []" "\<not> numberOfDims < 0" "0 < numberOfDims" by auto
    from a len d0 d1 ne show ?thesis
      by (simp add: foregroundDetector_initialize_def initializeImpl_def functor_setup_def
                    setProperties_def Let_def del: upt_Suc)
  qed
  show ?thesis
    unfolding Let_def using ok few neg nodims nostore by blast
qed

theorem initialize_without_validation_witness:
  "foregroundDetector_initialize env_debug (ForegroundDetectorImpl_new scene_functor) 2 (\<lambda>i. 1) 3
     36 (1 / 20) (25 / 4) (7 / 10) = Inr (scene_detector 3) \<and>
   Allocates env_debug (DimsVector 2) \<and> Allocates env_debug (ModelStore 1) \<and>
   Allocates env_debug (ModelCapacity 1 3) \<and>
   foregroundDetector_initialize env_debug (ForegroundDetectorImpl_new scene_functor) 1 (\<lambda>i. 1) 3
     36 (1 / 20) (25 / 4) (7 / 10) = Inl AssertionFailed \<and>
   foregroundDetector_initialize env_debug (ForegroundDetectorImpl_new scene_functor) (- 1) (\<lambda>i. 1) 3
     36 (1 / 20) (25 / 4) (7 / 10) = Inl LengthError"
proof -
  have ok: "foregroundDetector_initialize env_debug (ForegroundDetectorImpl_new scene_functor) 2
     (\<lambda>i. 1) 3 36 (1 / 20) (25 / 4) (7 / 10) = Inr (scene_detector 3)"
    by (simp add: store_eval fixture_defs Let_def upt_2)
  note inst = initialize_without_validation
         [where env = env_debug and fgObj = "ForegroundDetectorImpl_new scene_functor"
            and dims = "\<lambda>i. 1" and numGaussians = 3 and initialVariance = 36
            and initialWeight = "1 / 20" and varianceThreshold = "25 / 4"
            and minBGRatio = "7 / 10"]
  from inst [where numberOfDims = 1] inst [where numberOfDims = "- 1"]
       inst [where numberOfDims = 2] ok
  show ?thesis by (simp add: env_debug_def Let_def)
qed

text \<open>
  The call with \<^verbatim>\<open>numGaussians == 0\<close> on a 2-by-2 frame succeeds: the model pointer is
  set and four empty models are allocated.
\<close>

theorem initialize_accepts_zero_gaussians:
  "foregroundDetector_initialize env_debug (ForegroundDetectorImpl_new scene_functor) 2 (\<lambda>i. 2) 0
     36 (1 / 20) (25 / 4) (7 / 10) =
     Inr \<lparr>mFtor = scene_functor\<lparr>mDims := [2, 2], mNumPixels := 4, mNumGaussians := 0\<rparr>,
          mGMMVec = [([], 0), ([], 1), ([], 2), ([], 3)]\<rparr> \<and>
   mGMMPtr (scene_functor\<lparr>mDims := [2, 2], mNumPixels := 4, mNumGaussians := 0\<rparr>)"
  by (simp add: store_eval fixture_defs Let_def upt_2 upt_4)

subsection \<open>Independence of the partition into ranges\<close>

lemma completed_eq_iff:
  "completed r1 = completed r2 \<longleftrightarrow> (\<forall>x. (r1 = Inr x) = (r2 = Inr x))"
  by (cases r1; cases r2) (auto simp: completed_def)

lemma pixel_pass_None [simp]: "pixel_pass env ops f p None = None"
  by (simp add: pixel_pass_def)

lemma fold_pixel_pass_None [simp]: "fold (pixel_pass env ops f) ps None = None"
  by (induction ps) simp_all

lemma pixel_pass_commute:
  "pixel_pass env ops f p \<circ> pixel_pass env ops f q = pixel_pass env ops f q \<circ> pixel_pass env ops f p"
proof (cases "p = q")
  case True
  then show ?thesis by simp
next
  case False
  show ?thesis
  proof (rule ext)
    fix s
    show "(pixel_pass env ops f p \<circ> pixel_pass env ops f q) s = (pixel_pass env ops f q \<circ> pixel_pass env ops f p) s"
    proof (cases s)
      case None
      then show ?thesis by simp
    next
      case (Some st)
      obtain vec msk where st: "st = (vec, msk)" by (cases st)
      show ?thesis
        using False
        by (auto simp: Some st pixel_pass_def list_update_swap fun_upd_twist
                 split: sum.splits prod.splits)
    qed
  qed
qed

lemma runAlgorithm_fold:
  "pid \<le> endId \<Longrightarrow>
   completed (runAlgorithm env ops f pid endId st) = fold (pixel_pass env ops f) [pid..<endId] (Some st)"
proof (induction env ops f pid endId st rule: runAlgorithm.induct)
  case (1 env ops f pid endId st)
  show ?case
  proof (cases "pid = endId")
    case True
    then show ?thesis by (simp add: runAlgorithm.simps completed_def)
  next
    case False
    with "1.prems" have lt: "pid < endId" by simp
    then have upt: "[pid..<endId] = pid # [Suc pid..<endId]" by (rule upt_conv_Cons)
    show ?thesis
    proof (cases "pid < length (fst st)")
      case outside: False
      then have "pixel_pass env ops f pid (Some st) = None" by (simp add: pixel_pass_def)
      with False outside show ?thesis
        by (simp add: runAlgorithm.simps [of _ _ _ pid] upt completed_def)
    next
      case True
      show ?thesis
      proof (cases "detectForeground env ops f (fst (fst st ! pid)) (\<lambda>offset. mImage f (pid + offset))")
        case (Inl e)
        with True have "pixel_pass env ops f pid (Some st) = None" by (simp add: pixel_pass_def)
        with False True Inl show ?thesis
          by (simp add: runAlgorithm.simps [of _ _ _ pid] upt completed_def)
      next
        case (Inr r)
        obtain gmm' b where r: "r = (gmm', b)" by (cases r)
        from lt have le: "Suc pid \<le> endId" by simp
        from True Inr r
        have "pixel_pass env ops f pid (Some st) =
                Some ((fst st)[pid := (gmm', snd (fst st ! pid))], (snd st)(pid := b))"
          by (simp add: pixel_pass_def)
        with "1.IH" [OF False True Inr r [symmetric] le] False True Inr r
        show ?thesis
          by (simp add: runAlgorithm.simps [of _ _ _ pid] upt)
      qed
    qed
  qed
qed

lemma run_ranges_fold:
  assumes "mGMMPtr f" and "\<forall>r \<in> set ranges. fst r \<le> snd r"
  shows "completed (run_ranges env ops f ranges st) =
           fold (pixel_pass env ops f) (concat (map (\<lambda>r. [fst r..<snd r]) ranges)) (Some st)"
  using assms(2)
proof (induction ranges arbitrary: st)
  case Nil
  show ?case by (simp add: completed_def)
next
  case (Cons r rs)
  from Cons.prems have le: "fst r \<le> snd r" and rest: "\<forall>r \<in> set rs. fst r \<le> snd r" by simp_all
  have first: "completed (runAlgorithm env ops f (fst r) (snd r) st) =
               fold (pixel_pass env ops f) [fst r..<snd r] (Some st)"
    using le by (rule runAlgorithm_fold)
  show ?case
  proof (cases "runAlgorithm env ops f (fst r) (snd r) st")
    case (Inl e)
    with first assms(1) show ?thesis
      by (simp add: functor_call_def completed_def)
  next
    case (Inr st')
    with first have "fold (pixel_pass env ops f) [fst r..<snd r] (Some st) = Some st'"
      by (simp add: completed_def)
    with Inr assms(1) Cons.IH [OF rest, of st'] show ?thesis
      by (simp add: functor_call_def)
  qed
qed

lemma fold_pixel_pass_upt:
  assumes "fold (pixel_pass env ops f) [a..<b] (Some st) = Some st'"
  shows "length (fst st') = length (fst st) \<and>
         (\<forall>p. a \<le> p \<and> p < b \<longrightarrow>
            p < length (fst st) \<and>
            detectForeground env ops f (fst (fst st ! p)) (\<lambda>offset. mImage f (p + offset)) =
              Inr (fst (fst st' ! p), snd st' p) \<and>
            snd (fst st' ! p) = snd (fst st ! p)) \<and>
         (\<forall>p. \<not> (a \<le> p \<and> p < b) \<longrightarrow> fst st' ! p = fst st ! p \<and> snd st' p = snd st p)"
  using assms
proof (induction b arbitrary: st')
  case 0
  then show ?case by simp
next
  case (Suc b)
  show ?case
  proof (cases "a \<le> b")
    case False
    with Suc.prems have "st' = st" by simp
    with False show ?thesis by auto
  next
    case True
    then have upt: "[a..<Suc b] = [a..<b] @ [b]" by simp
    from Suc.prems
    have whole: "pixel_pass env ops f b (fold (pixel_pass env ops f) [a..<b] (Some st)) = Some st'"
      by (simp only: upt fold_append comp_apply fold.simps id_apply)
    then obtain st1 where
      st1: "fold (pixel_pass env ops f) [a..<b] (Some st) = Some st1"
      and last: "pixel_pass env ops f b (Some st1) = Some st'"
      by (cases "fold (pixel_pass env ops f) [a..<b] (Some st)") simp_all
    from Suc.IH [OF st1] have
      len: "length (fst st1) = length (fst st)"
      and inside: "\<And>p. a \<le> p \<Longrightarrow> p < b \<Longrightarrow>
            p < length (fst st) \<and>
            detectForeground env ops f (fst (fst st ! p)) (\<lambda>offset. mImage f (p + offset)) =
              Inr (fst (fst st1 ! p), snd st1 p) \<and>
            snd (fst st1 ! p) = snd (fst st ! p)"
      and outside: "\<And>p. \<not> (a \<le> p \<and> p < b) \<Longrightarrow> fst st1 ! p = fst st ! p \<and> snd st1 p = snd st p"
      by blast+
    from last obtain gmm' bb where
      b: "b < length (fst st1)"
      and det: "detectForeground env ops f (fst (fst st1 ! b)) (\<lambda>offset. mImage f (b + offset)) = Inr (gmm', bb)"
      and st': "st' = ((fst st1)[b := (gmm', snd (fst st1 ! b))], (snd st1)(b := bb))"
      by (auto simp: pixel_pass_def split: if_splits sum.splits)
    from outside [of b] have same: "fst st1 ! b = fst st ! b" by simp
    show ?thesis
    proof (intro conjI allI impI)
      show "length (fst st') = length (fst st)" using st' len by simp
    next
      fix p assume p: "a \<le> p \<and> p < Suc b"
      show "p < length (fst st)" using p inside [of p] b len by (cases "p = b") auto
      show "detectForeground env ops f (fst (fst st ! p)) (\<lambda>offset. mImage f (p + offset)) =
              Inr (fst (fst st' ! p), snd st' p)"
      proof (cases "p = b")
        case True
        with det same b st' show ?thesis by simp
      next
        case False
        with p inside [of p] st' show ?thesis by simp
      qed
      show "snd (fst st' ! p) = snd (fst st ! p)"
      proof (cases "p = b")
        case True
        with same b st' show ?thesis by simp
      next
        case False
        with p inside [of p] st' show ?thesis by simp
      qed
    next
      fix p assume p: "\<not> (a \<le> p \<and> p < Suc b)"
      with True have ne: "p \<noteq> b" and out: "\<not> (a \<le> p \<and> p < b)" by auto
      from outside [OF out] ne st' show "fst st' ! p = fst st ! p" by simp
      from outside [OF out] ne st' show "snd st' p = snd st p" by simp
    qed
  qed
qed

text \<open>
  Claim C9. Let the detector be ready and let the ranges, in the order in which they
  are run, be non-reversed and cover every pixel index below the number of pixels
  exactly once. Then running the functor on the ranges one after the other completes
  with a detector and a mask exactly when the single pass over the whole range completes
  with them. Moreover the model and the mask value of a pixel after the step are the
  result of \<^verbatim>\<open>detectForeground\<close> on that pixel's own prior model and the pixel's
  samples of the frame.
\<close>

theorem chunking_independence:
  assumes "mGMMPtr (mFtor d)"
    and "\<forall>r \<in> set ranges. fst r \<le> snd r"
    and "mset (concat (map (\<lambda>r. [fst r..<snd r]) ranges)) = mset [0..<mNumPixels (mFtor d)]"
  shows "(\<forall>d' fgMask'.
            (stepImpl_parallel env ops ranges d inImage learningRate fgMask = Inr (d', fgMask')) =
            (stepImpl env ops d inImage learningRate fgMask = Inr (d', fgMask'))) \<and>
         (\<forall>d' fgMask'.
            stepImpl env ops d inImage learningRate fgMask = Inr (d', fgMask') \<longrightarrow>
            (\<forall>p < mNumPixels (mFtor d).
               detectForeground env ops (setStepInput (mFtor d) inImage learningRate)
                 (fst (mGMMVec d ! p)) (\<lambda>offset. inImage (p + offset)) =
               Inr (fst (mGMMVec d' ! p), fgMask' p)))"
proof -
  let ?f = "setStepInput (mFtor d) inImage learningRate"
  let ?N = "mNumPixels (mFtor d)"
  let ?st = "(mGMMVec d, fgMask)"
  have ptr: "mGMMPtr ?f" and N: "mNumPixels ?f = ?N" and img: "mImage ?f = inImage"
    using assms(1) by (simp_all add: setStepInput_def)
  have "completed (run_ranges env ops ?f ranges ?st) =
        fold (pixel_pass env ops ?f) (concat (map (\<lambda>r. [fst r..<snd r]) ranges)) (Some ?st)"
    using ptr assms(2) by (rule run_ranges_fold)
  also have "\<dots> = fold (pixel_pass env ops ?f) [0..<?N] (Some ?st)"
    using assms(3) by (intro fun_cong [OF fold_multiset_equiv] pixel_pass_commute)
  also have "\<dots> = completed (runAlgorithm env ops ?f 0 ?N ?st)"
    by (simp add: runAlgorithm_fold)
  finally have "completed (run_ranges env ops ?f ranges ?st) = completed (runAlgorithm env ops ?f 0 ?N ?st)" .
  then have "\<forall>x. (run_ranges env ops ?f ranges ?st = Inr x) = (runAlgorithm env ops ?f 0 ?N ?st = Inr x)"
    by (rule completed_eq_iff [THEN iffD1])
  then have same: "\<And>x. (run_ranges env ops ?f ranges ?st = Inr x) = (runAlgorithm env ops ?f 0 ?N ?st = Inr x)"
    by blast
  have par: "(stepImpl_parallel env ops ranges d inImage learningRate fgMask = Inr (d', fgMask')) =
             (\<exists>vec. run_ranges env ops ?f ranges ?st = Inr (vec, fgMask') \<and> d' = \<lparr>mFtor = ?f, mGMMVec = vec\<rparr>)"
    for d' fgMask'
    by (auto simp: stepImpl_parallel_def Let_def split: sum.splits)
  have seq: "(stepImpl env ops d inImage learningRate fgMask = Inr (d', fgMask')) =
             (\<exists>vec. runAlgorithm env ops ?f 0 ?N ?st = Inr (vec, fgMask') \<and> d' = \<lparr>mFtor = ?f, mGMMVec = vec\<rparr>)"
    for d' fgMask'
    using ptr N by (auto simp: stepImpl_def functor_call_def Let_def split: sum.splits)
  have first: "(stepImpl_parallel env ops ranges d inImage learningRate fgMask = Inr (d', fgMask')) =
               (stepImpl env ops d inImage learningRate fgMask = Inr (d', fgMask'))" for d' fgMask'
    unfolding par seq same ..
  have second: "detectForeground env ops ?f (fst (mGMMVec d ! p)) (\<lambda>offset. inImage (p + offset)) =
                  Inr (fst (mGMMVec d' ! p), fgMask' p)"
    if run: "stepImpl env ops d inImage learningRate fgMask = Inr (d', fgMask')" and p: "p < ?N"
    for d' fgMask' p
  proof -
    from run [unfolded seq] have r: "runAlgorithm env ops ?f 0 ?N ?st = Inr (mGMMVec d', fgMask')"
      by auto
    have "fold (pixel_pass env ops ?f) [0..<?N] (Some ?st) = Some (mGMMVec d', fgMask')"
      using runAlgorithm_fold [of 0 ?N env ops ?f ?st] r by (simp add: completed_def)
    from fold_pixel_pass_upt [OF this] p img show ?thesis by simp
  qed
  from first second show ?thesis by blast
qed

theorem chunking_independence_witness:
  "stepImpl_parallel env_release exact_ops [(1, 2), (0, 1)] two_pixel_detector two_pixel_frame (1 / 20)
     (\<lambda>a. True) =
     Inr (\<lparr>mFtor = scene_functor\<lparr>mDims := [2, 1], mNumPixels := 2, mImage := two_pixel_frame\<rparr>,
           mGMMVec = [([\<lparr>mWeight = 1, mMean = [1283 / 10], mVariance = [36]\<rparr>], 0),
                      ([gaussian1 1 10 36], 1)]\<rparr>,
          (\<lambda>a. True)(0 := False, 1 := False)) \<and>
   stepImpl env_release exact_ops two_pixel_detector two_pixel_frame (1 / 20) (\<lambda>a. True) =
     Inr (\<lparr>mFtor = scene_functor\<lparr>mDims := [2, 1], mNumPixels := 2, mImage := two_pixel_frame\<rparr>,
           mGMMVec = [([\<lparr>mWeight = 1, mMean = [1283 / 10], mVariance = [36]\<rparr>], 0),
                      ([gaussian1 1 10 36], 1)]\<rparr>,
          (\<lambda>a. True)(0 := False, 1 := False))"
proof -
  have ptr: "mGMMPtr (mFtor two_pixel_detector)"
    by (simp add: fixture_defs)
  have rng: "\<forall>r \<in> set [(1, 2), (0, 1 :: nat)]. fst r \<le> (snd r :: nat)"
    by simp
  have cover: "mset (concat (map (\<lambda>r. [fst r..<snd r]) [(1, 2), (0, 1)])) =
                 mset [0..<mNumPixels (mFtor two_pixel_detector)]"
    by (simp add: fixture_defs upt_rec)
  have seq: "stepImpl env_release exact_ops two_pixel_detector two_pixel_frame (1 / 20) (\<lambda>a. True) =
     Inr (\<lparr>mFtor = scene_functor\<lparr>mDims := [2, 1], mNumPixels := 2, mImage := two_pixel_frame\<rparr>,
           mGMMVec = [([\<lparr>mWeight = 1, mMean = [1283 / 10], mVariance = [36]\<rparr>], 0),
                      ([gaussian1 1 10 36], 1)]\<rparr>,
          (\<lambda>a. True)(0 := False, 1 := False))"
    by (simp add: store_eval kernel_eval fixture_defs)
  from chunking_independence [OF ptr rng cover, where env = env_release and ops = exact_ops
         and inImage = two_pixel_frame and learningRate = "1 / 20" and fgMask = "\<lambda>a. True"] seq
  show ?thesis by blast
qed

subsection \<open>Classification\<close>

lemma isForeground_loop_in_range:
  "start \<le> m \<Longrightarrow> m < start + length gs \<Longrightarrow>
   isForeground_loop ops minBG gs start m wSum =
     Some (\<exists>i < m - start.
             stat_le ops
               (stat_sub ops minBG (foldl (stat_add ops) wSum (map mWeight (take (Suc i) gs))))
               (Eps ops))"
proof (induction gs arbitrary: start wSum)
  case Nil
  then show ?case by simp
next
  case (Cons g gs)
  show ?case
  proof (cases "m = start")
    case True
    then show ?thesis by (simp add: Let_def)
  next
    case False
    with Cons.prems have lt: "Suc start \<le> m" "m < Suc start + length gs" by simp_all
    obtain k where k: "m - start = Suc k" "m - Suc start = k"
      using lt by (metis Suc_diff_le diff_Suc_Suc)
    show ?thesis
      using False Cons.IH [OF lt, of "stat_add ops wSum (mWeight g)"] k
      by (simp add: Let_def Ex_less_Suc2)
  qed
qed

lemma isForeground_loop_outside:
  "m < start \<or> start + length gs \<le> m \<Longrightarrow>
   \<forall>i < length gs.
      \<not> stat_le ops
          (stat_sub ops minBG (foldl (stat_add ops) wSum (map mWeight (take (Suc i) gs))))
          (Eps ops) \<Longrightarrow>
   isForeground_loop ops minBG gs start m wSum = None"
proof (induction gs arbitrary: start wSum)
  case Nil
  then show ?case by simp
next
  case (Cons g gs)
  from Cons.prems(2)
  have nc0: "\<not> stat_le ops (stat_sub ops minBG (stat_add ops wSum (mWeight g))) (Eps ops)"
    and rest: "\<forall>i < length gs.
      \<not> stat_le ops
          (stat_sub ops minBG
             (foldl (stat_add ops) (stat_add ops wSum (mWeight g)) (map mWeight (take (Suc i) gs))))
          (Eps ops)"
    by (simp_all add: All_less_Suc2)
  from Cons.prems(1) have ne: "m \<noteq> start" and out: "m < Suc start \<or> Suc start + length gs \<le> m"
    by auto
  from Cons.IH [OF out rest] nc0 ne show ?case by (simp add: Let_def)
qed

lemma isForeground_valid_index:
  assumes "m < length gmm"
  shows "isForeground env ops f gmm m =
           Inr (\<exists>i < m.
                  stat_le ops
                    (stat_sub ops (mMinimumBackgroundRatio f)
                       (foldl (stat_add ops) (stat_zero ops) (map mWeight (take (Suc i) gmm))))
                    (Eps ops))"
proof (cases "m = 0")
  case True
  then show ?thesis by (simp add: isForeground_def)
next
  case False
  from assms have ne: "gmm \<noteq> []" by auto
  from isForeground_loop_in_range [of 0 m gmm ops "mMinimumBackgroundRatio f" "stat_zero ops"] assms
  have "isForeground_loop ops (mMinimumBackgroundRatio f) gmm 0 m (stat_zero ops) =
          Some (\<exists>i < m.
                  stat_le ops
                    (stat_sub ops (mMinimumBackgroundRatio f)
                       (foldl (stat_add ops) (stat_zero ops) (map mWeight (take (Suc i) gmm))))
                    (Eps ops))"
    by simp
  with False ne show ?thesis by (simp add: isForeground_def)
qed

text \<open>
  Claim C2. For a non-empty model and a valid index \<open>m\<close> of the matched or created
  component: the pixel is background when \<open>m = 0\<close>. Otherwise let \<open>wSum i\<close> be the value
  of \<^verbatim>\<open>wSum\<close> after the weights of the components \<open>0..i\<close> were added to it one by one
  in \<^verbatim>\<open>stat_type\<close>, starting from zero, and let \<open>crossed i\<close> say that
  \<^verbatim>\<open>mMinimumBackgroundRatio - wSum <= eps\<close> holds for that value. At the first crossed
  position \<open>i\<close> the pixel is background iff \<open>m \<le> i\<close> and foreground otherwise, and it
  is background when no position before \<open>m\<close> is crossed. Altogether the pixel is
  foreground iff some position before \<open>m\<close> is crossed. A model with exactly one
  component gives background.
\<close>

theorem isForeground_classification:
  assumes "gmm \<noteq> []" and "m < length gmm"
  shows
    "(let wSum = (\<lambda>i. foldl (stat_add ops) (stat_zero ops) (map mWeight (take (Suc i) gmm)));
          crossed = (\<lambda>i. stat_le ops (stat_sub ops (mMinimumBackgroundRatio f) (wSum i)) (Eps ops));
          res = isForeground env ops f gmm m
      in (m = 0 \<longrightarrow> res = Inr False) \<and>
         (\<forall>i < length gmm. m \<noteq> 0 \<and> crossed i \<and> (\<forall>j < i. \<not> crossed j) \<longrightarrow> res = Inr (\<not> m \<le> i)) \<and>
         (m \<noteq> 0 \<and> (\<forall>j < m. \<not> crossed j) \<longrightarrow> res = Inr False) \<and>
         res = Inr (\<exists>i < m. crossed i) \<and>
         (length gmm = 1 \<longrightarrow> res = Inr False))"
proof -
  let ?crossed = "\<lambda>i. stat_le ops
                        (stat_sub ops (mMinimumBackgroundRatio f)
                           (foldl (stat_add ops) (stat_zero ops) (map mWeight (take (Suc i) gmm))))
                        (Eps ops)"
  have res: "isForeground env ops f gmm m = Inr (\<exists>i < m. ?crossed i)"
    using assms(2) by (rule isForeground_valid_index)
  have first: "(\<exists>k < m. ?crossed k) \<longleftrightarrow> \<not> m \<le> i"
    if "?crossed i" "\<forall>j < i. \<not> ?crossed j" for i
    using that by (metis not_le_imp_less order.strict_trans2)
  have single: "length gmm = 1 \<Longrightarrow> m = 0" using assms(2) by simp
  show ?thesis
    unfolding Let_def res using first single by auto
qed

text \<open>
  The theorem at two arithmetics, on the model with the weights \<open>1/2\<close>, \<open>1/16\<close> and
  \<open>7/16\<close>, the matched index 2 and the minimum background ratio \<open>3/4\<close>. In the rounded
  arithmetic the sum \<open>9/16\<close> of the first two weights is rounded to \<open>5/8\<close>, position 1
  is crossed and the pixel is foreground; in exact arithmetic with the same epsilon no
  position before 2 is crossed and the pixel is background.
\<close>

theorem isForeground_classification_witness:
  "isForeground env_release grid_ops (scene_functor\<lparr>mMinimumBackgroundRatio := 3 / 4\<rparr>)
     [gaussian1 (1 / 2) 128 36, gaussian1 (1 / 16) 10 36, gaussian1 (7 / 16) 200 36] 2 = Inr True \<and>
   foldl (stat_add grid_ops) (stat_zero grid_ops) [1 / 2, 1 / 16] = 5 / 8 \<and>
   stat_le grid_ops (stat_sub grid_ops (3 / 4) (5 / 8)) (Eps grid_ops) \<and>
   isForeground env_release (real_ops (1 / 8)) (scene_functor\<lparr>mMinimumBackgroundRatio := 3 / 4\<rparr>)
     [gaussian1 (1 / 2) 128 36, gaussian1 (1 / 16) 10 36, gaussian1 (7 / 16) 200 36] 2 = Inr False \<and>
   \<not> 3 / 4 - (1 / 2 + 1 / 16 :: real) \<le> 1 / 8"
proof -
  let ?G = "[gaussian1 (1 / 2) 128 36, gaussian1 (1 / 16) 10 36, gaussian1 (7 / 16) 200 36]"
  let ?f = "scene_functor\<lparr>mMinimumBackgroundRatio := 3 / 4\<rparr>"
  have ne: "?G \<noteq> []" and m: "(2::nat) < length ?G" by simp_all
  from isForeground_classification [OF ne m, where ops = grid_ops and f = ?f and env = env_release]
       isForeground_classification [OF ne m, where ops = "real_ops (1 / 8)" and f = ?f
                                      and env = env_release]
  show ?thesis
    by (simp add: isForeground_def scene_functor_def env_release_def gaussian1_def grid_ops_def
          round8_def Let_def)
qed

subsection \<open>Leaving the list in \<^verbatim>\<open>isForeground\<close>\<close>

text \<open>
  Claim C7, as the code has it. When the walk of \<^verbatim>\<open>isForeground\<close> leaves the list (the
  matched iterator is not the first position and is no position of the list, and at no
  position does the accumulated \<^verbatim>\<open>wSum\<close>, added up in \<^verbatim>\<open>stat_type\<close>, cross the
  minimum background ratio), a build without \<^verbatim>\<open>NDEBUG\<close> fails an assertion, and a build
  with \<^verbatim>\<open>NDEBUG\<close> returns the classification background.
\<close>

theorem isForeground_end_of_list:
  assumes "m \<noteq> 0" and "length gmm \<le> m"
    and "\<forall>i < length gmm.
           \<not> stat_le ops
               (stat_sub ops (mMinimumBackgroundRatio f)
                  (foldl (stat_add ops) (stat_zero ops) (map mWeight (take (Suc i) gmm))))
               (Eps ops)"
  shows "isForeground_loop ops (mMinimumBackgroundRatio f) gmm 0 m (stat_zero ops) = None \<and>
         isForeground env ops f gmm m = (if NDEBUG env then Inr False else Inl AssertionFailed)"
proof -
  have "isForeground_loop ops (mMinimumBackgroundRatio f) gmm 0 m (stat_zero ops) = None"
    using isForeground_loop_outside
            [of m 0 gmm ops "mMinimumBackgroundRatio f" "stat_zero ops"] assms
    by simp
  with assms(1) show ?thesis by (simp add: isForeground_def)
qed

theorem isForeground_end_of_list_witness:
  "isForeground env_debug exact_ops scene_functor [gaussian1 (1 / 10) 128 36] 1 =
     Inl AssertionFailed \<and>
   \<not> stat_le exact_ops
       (stat_sub exact_ops (7 / 10)
          (stat_add exact_ops (stat_zero exact_ops) (mWeight (gaussian1 (1 / 10) 128 36))))
       (Eps exact_ops)"
  using isForeground_end_of_list
    [where m = 1 and gmm = "[gaussian1 (1 / 10) 128 36]" and f = scene_functor
       and env = env_debug and ops = exact_ops]
  by (simp add: scene_functor_def env_debug_def gaussian1_def exact_ops_def)

text \<open>
  In a release build the walk over the one-component model of weight 0.1 with the end
  iterator leaves the list, and the call returns background without any failure.
\<close>

theorem isForeground_end_of_list_silent:
  "isForeground_loop exact_ops (mMinimumBackgroundRatio scene_functor)
     [gaussian1 (1 / 10) 128 36] 0 1 (stat_zero exact_ops) = None \<and>
   isForeground env_release exact_ops scene_functor [gaussian1 (1 / 10) 128 36] 1 = Inr False"
  by (simp add: isForeground_def scene_functor_def env_release_def gaussian1_def exact_ops_def
        Let_def)

subsection \<open>The states written by \<^verbatim>\<open>getStates\<close>\<close>

lemma stride_unique:
  fixes P :: nat
  assumes "q1 < P" "q2 < P" "q1 + m * P = q2 + j * P"
  shows "q1 = q2 \<and> m = j"
proof -
  from assms(3) have "(q1 + m * P) mod P = (q2 + j * P) mod P" by simp
  with assms(1,2) have q: "q1 = q2" by simp
  with assms(3) have "m * P = j * P" by simp
  moreover from assms(1) have "0 < P" by simp
  ultimately have "m = j" by simp
  with q show ?thesis by simp
qed

lemma copyStat_other:
  "(\<forall>i < length xs. a \<noteq> dst + i * offset) \<Longrightarrow> copyStat xs buf dst offset a = buf a"
proof (induction xs arbitrary: buf dst)
  case Nil
  show ?case by simp
next
  case (Cons x xs)
  from Cons.prems have a0: "a \<noteq> dst" by force
  have "\<forall>i < length xs. a \<noteq> dst + offset + i * offset"
  proof (intro allI impI)
    fix i assume "i < length xs"
    then have "Suc i < length (x # xs)" by simp
    with Cons.prems have "a \<noteq> dst + Suc i * offset" by blast
    then show "a \<noteq> dst + offset + i * offset" by (simp add: algebra_simps)
  qed
  from Cons.IH [OF this] a0 show ?case by simp
qed

lemma copyStat_written:
  "0 < offset \<Longrightarrow> i < length xs \<Longrightarrow> copyStat xs buf dst offset (dst + i * offset) = xs ! i"
proof (induction xs arbitrary: buf dst i)
  case Nil
  then show ?case by simp
next
  case (Cons x xs)
  show ?case
  proof (cases i)
    case 0
    have "\<forall>k < length xs. dst \<noteq> dst + offset + k * offset"
      using Cons.prems(1) by simp
    from copyStat_other [OF this] 0 show ?thesis by simp
  next
    case (Suc k)
    with Cons.prems have "k < length xs" by simp
    have "copyStat (x # xs) buf dst offset (dst + Suc k * offset) =
          copyStat xs (buf(dst := x)) (dst + offset) offset (dst + offset + k * offset)"
      by (simp add: algebra_simps)
    also have "\<dots> = xs ! k"
      using Cons.prems(1) \<open>k < length xs\<close> by (rule Cons.IH)
    finally show ?thesis using Suc by simp
  qed
qed

lemma getGMMStates_loop_numActive:
  "numActive (getGMMStates_loop P S gs wptr wo mptr vptr b) = numActive b"
  by (induction gs arbitrary: wo mptr vptr b) simp_all

lemma getGMMStates_loop_weights_other:
  "(\<forall>n < length gs. a \<noteq> wptr + wo + n * P) \<Longrightarrow>
   weights (getGMMStates_loop P S gs wptr wo mptr vptr b) a = weights b a"
proof (induction gs arbitrary: wo mptr vptr b)
  case Nil
  show ?case by simp
next
  case (Cons g gs)
  from Cons.prems have a0: "a \<noteq> wptr + wo" by force
  have "\<forall>n < length gs. a \<noteq> wptr + (wo + P) + n * P"
  proof (intro allI impI)
    fix n assume "n < length gs"
    then have "Suc n < length (g # gs)" by simp
    with Cons.prems have "a \<noteq> wptr + wo + Suc n * P" by blast
    then show "a \<noteq> wptr + (wo + P) + n * P" by (simp add: algebra_simps)
  qed
  from Cons.IH [OF this] a0 show ?case by simp
qed

lemma getGMMStates_loop_weights_written:
  "0 < P \<Longrightarrow> n < length gs \<Longrightarrow>
   weights (getGMMStates_loop P S gs wptr wo mptr vptr b) (wptr + wo + n * P) = mWeight (gs ! n)"
proof (induction gs arbitrary: wo mptr vptr b n)
  case Nil
  then show ?case by simp
next
  case (Cons g gs)
  show ?case
  proof (cases n)
    case 0
    have "\<forall>k < length gs. wptr + wo \<noteq> wptr + (wo + P) + k * P"
      using Cons.prems(1) by simp
    from getGMMStates_loop_weights_other [OF this] 0 show ?thesis by simp
  next
    case (Suc k)
    with Cons.prems have "k < length gs" by simp
    from Cons.IH [OF Cons.prems(1) this, of "wo + P"] Suc
    show ?thesis by (simp add: algebra_simps)
  qed
qed

lemma getGMMStates_loop_means_other:
  "(\<forall>n < length gs. \<forall>c < length (mMean (gs ! n)). a \<noteq> mptr + n * S + c * P) \<Longrightarrow>
   means (getGMMStates_loop P S gs wptr wo mptr vptr b) a = means b a"
proof (induction gs arbitrary: wo mptr vptr b)
  case Nil
  show ?case by simp
next
  case (Cons g gs)
  have here: "\<forall>c < length (mMean g). a \<noteq> mptr + c * P"
    using Cons.prems by force
  have "\<forall>n < length gs. \<forall>c < length (mMean (gs ! n)). a \<noteq> mptr + S + n * S + c * P"
  proof (intro allI impI)
    fix n c assume "n < length gs" "c < length (mMean (gs ! n))"
    then have "Suc n < length (g # gs)" "c < length (mMean ((g # gs) ! Suc n))" by simp_all
    with Cons.prems have "a \<noteq> mptr + Suc n * S + c * P" by blast
    then show "a \<noteq> mptr + S + n * S + c * P" by (simp add: algebra_simps)
  qed
  from Cons.IH [OF this] copyStat_other [OF here] show ?case by simp
qed

lemma getGMMStates_loop_means_written:
  assumes "0 < P" and "\<forall>g \<in> set gs. length (mMean g) = C" and "n < length gs" and "c < C"
  shows "means (getGMMStates_loop P (P * C) gs wptr wo mptr vptr b) (mptr + n * (P * C) + c * P) =
           mMean (gs ! n) ! c"
  using assms(2,3)
proof (induction gs arbitrary: wo mptr vptr b n)
  case Nil
  then show ?case by simp
next
  case (Cons g gs)
  from Cons.prems(1) have lg: "length (mMean g) = C" and rest: "\<forall>g \<in> set gs. length (mMean g) = C"
    by simp_all
  show ?case
  proof (cases n)
    case 0
    have "\<forall>k < length gs. \<forall>c' < length (mMean (gs ! k)).
            mptr + c * P \<noteq> mptr + P * C + k * (P * C) + c' * P"
    proof (intro allI impI)
      fix k c' assume "k < length gs" "c' < length (mMean (gs ! k))"
      have "c * P < P * C" using assms(1,4) by simp
      then show "mptr + c * P \<noteq> mptr + P * C + k * (P * C) + c' * P" by linarith
    qed
    from getGMMStates_loop_means_other [OF this] 0 lg assms(1,4)
    show ?thesis by (simp add: copyStat_written)
  next
    case (Suc k)
    with Cons.prems have "k < length gs" by simp
    have "means (getGMMStates_loop P (P * C) (g # gs) wptr wo mptr vptr b)
            (mptr + Suc k * (P * C) + c * P) =
          means (getGMMStates_loop P (P * C) gs wptr (wo + P) (mptr + P * C) (vptr + P * C)
                   (b\<lparr>weights := (weights b)(wptr + wo := mWeight g),
                      means := copyStat (mMean g) (means b) mptr P,
                      variances := copyStat (mVariance g) (variances b) vptr P\<rparr>))
            (mptr + P * C + k * (P * C) + c * P)"
      by (simp add: algebra_simps)
    also have "\<dots> = mMean (gs ! k) ! c"
      using rest \<open>k < length gs\<close> by (rule Cons.IH)
    finally show ?thesis using Suc by simp
  qed
qed

lemma getGMMStates_loop_variances_other:
  "(\<forall>n < length gs. \<forall>c < length (mVariance (gs ! n)). a \<noteq> vptr + n * S + c * P) \<Longrightarrow>
   variances (getGMMStates_loop P S gs wptr wo mptr vptr b) a = variances b a"
proof (induction gs arbitrary: wo mptr vptr b)
  case Nil
  show ?case by simp
next
  case (Cons g gs)
  have here: "\<forall>c < length (mVariance g). a \<noteq> vptr + c * P"
    using Cons.prems by force
  have "\<forall>n < length gs. \<forall>c < length (mVariance (gs ! n)). a \<noteq> vptr + S + n * S + c * P"
  proof (intro allI impI)
    fix n c assume "n < length gs" "c < length (mVariance (gs ! n))"
    then have "Suc n < length (g # gs)" "c < length (mVariance ((g # gs) ! Suc n))" by simp_all
    with Cons.prems have "a \<noteq> vptr + Suc n * S + c * P" by blast
    then show "a \<noteq> vptr + S + n * S + c * P" by (simp add: algebra_simps)
  qed
  from Cons.IH [OF this] copyStat_other [OF here] show ?case by simp
qed

lemma getGMMStates_loop_variances_written:
  assumes "0 < P" and "\<forall>g \<in> set gs. length (mVariance g) = C" and "n < length gs" and "c < C"
  shows "variances (getGMMStates_loop P (P * C) gs wptr wo mptr vptr b) (vptr + n * (P * C) + c * P) =
           mVariance (gs ! n) ! c"
  using assms(2,3)
proof (induction gs arbitrary: wo mptr vptr b n)
  case Nil
  then show ?case by simp
next
  case (Cons g gs)
  from Cons.prems(1) have lg: "length (mVariance g) = C"
    and rest: "\<forall>g \<in> set gs. length (mVariance g) = C"
    by simp_all
  show ?case
  proof (cases n)
    case 0
    have "\<forall>k < length gs. \<forall>c' < length (mVariance (gs ! k)).
            vptr + c * P \<noteq> vptr + P * C + k * (P * C) + c' * P"
    proof (intro allI impI)
      fix k c' assume "k < length gs" "c' < length (mVariance (gs ! k))"
      have "c * P < P * C" using assms(1,4) by simp
      then show "vptr + c * P \<noteq> vptr + P * C + k * (P * C) + c' * P" by linarith
    qed
    from getGMMStates_loop_variances_other [OF this] 0 lg assms(1,4)
    show ?thesis by (simp add: copyStat_written)
  next
    case (Suc k)
    with Cons.prems have "k < length gs" by simp
    have "variances (getGMMStates_loop P (P * C) (g # gs) wptr wo mptr vptr b)
            (vptr + Suc k * (P * C) + c * P) =
          variances (getGMMStates_loop P (P * C) gs wptr (wo + P) (mptr + P * C) (vptr + P * C)
                   (b\<lparr>weights := (weights b)(wptr + wo := mWeight g),
                      means := copyStat (mMean g) (means b) mptr P,
                      variances := copyStat (mVariance g) (variances b) vptr P\<rparr>))
            (vptr + P * C + k * (P * C) + c * P)"
      by (simp add: algebra_simps)
    also have "\<dots> = mVariance (gs ! k) ! c"
      using rest \<open>k < length gs\<close> by (rule Cons.IH)
    finally show ?thesis using Suc by simp
  qed
qed

lemma getGMMStates_numActive:
  "numActive (getGMMStates f gmm wptr mptr vptr naptr b) =
     (numActive b)(naptr := int_of_mwSize (length gmm))"
  by (simp add: getGMMStates_def Let_def getGMMStates_loop_numActive)

lemma getGMMStates_weights_other:
  assumes "\<forall>j. a \<noteq> wptr + j * mNumPixels f"
  shows "weights (getGMMStates f gmm wptr mptr vptr naptr b) a = weights b a"
proof -
  from assms have "\<forall>n < length gmm. a \<noteq> wptr + 0 + n * mNumPixels f" by simp
  from getGMMStates_loop_weights_other [OF this] show ?thesis
    by (simp add: getGMMStates_def Let_def)
qed

lemma getGMMStates_weights_written:
  assumes "0 < mNumPixels f" "n < length gmm"
  shows "weights (getGMMStates f gmm wptr mptr vptr naptr b) (wptr + n * mNumPixels f) =
           mWeight (gmm ! n)"
  using getGMMStates_loop_weights_written [OF assms, of _ wptr 0]
  by (simp add: getGMMStates_def Let_def)

lemma getGMMStates_means_other:
  assumes "\<forall>j. a \<noteq> mptr + j * mNumPixels f"
  shows "means (getGMMStates f gmm wptr mptr vptr naptr b) a = means b a"
proof -
  have "\<forall>n < length gmm. \<forall>c < length (mMean (gmm ! n)).
          a \<noteq> mptr + n * (mNumPixels f * mNumChannels f) + c * mNumPixels f"
  proof (intro allI impI)
    fix n c
    from assms have "a \<noteq> mptr + (n * mNumChannels f + c) * mNumPixels f" by blast
    then show "a \<noteq> mptr + n * (mNumPixels f * mNumChannels f) + c * mNumPixels f"
      by (simp add: algebra_simps)
  qed
  from getGMMStates_loop_means_other [OF this] show ?thesis
    by (simp add: getGMMStates_def Let_def)
qed

lemma getGMMStates_means_written:
  assumes "0 < mNumPixels f" "\<forall>g \<in> set gmm. length (mMean g) = mNumChannels f"
    "n < length gmm" "c < mNumChannels f"
  shows "means (getGMMStates f gmm wptr mptr vptr naptr b)
           (mptr + n * (mNumPixels f * mNumChannels f) + c * mNumPixels f) = mMean (gmm ! n) ! c"
  using getGMMStates_loop_means_written [OF assms]
  by (simp add: getGMMStates_def Let_def)

lemma getGMMStates_variances_other:
  assumes "\<forall>j. a \<noteq> vptr + j * mNumPixels f"
  shows "variances (getGMMStates f gmm wptr mptr vptr naptr b) a = variances b a"
proof -
  have "\<forall>n < length gmm. \<forall>c < length (mVariance (gmm ! n)).
          a \<noteq> vptr + n * (mNumPixels f * mNumChannels f) + c * mNumPixels f"
  proof (intro allI impI)
    fix n c
    from assms have "a \<noteq> vptr + (n * mNumChannels f + c) * mNumPixels f" by blast
    then show "a \<noteq> vptr + n * (mNumPixels f * mNumChannels f) + c * mNumPixels f"
      by (simp add: algebra_simps)
  qed
  from getGMMStates_loop_variances_other [OF this] show ?thesis
    by (simp add: getGMMStates_def Let_def)
qed

lemma getGMMStates_variances_written:
  assumes "0 < mNumPixels f" "\<forall>g \<in> set gmm. length (mVariance g) = mNumChannels f"
    "n < length gmm" "c < mNumChannels f"
  shows "variances (getGMMStates f gmm wptr mptr vptr naptr b)
           (vptr + n * (mNumPixels f * mNumChannels f) + c * mNumPixels f) = mVariance (gmm ! n) ! c"
  using getGMMStates_loop_variances_written [OF assms]
  by (simp add: getGMMStates_def Let_def)

text \<open>The loop over the pixels.\<close>

lemma getStatesImpl_loop_numActive_other:
  "(\<forall>k < length pms. a \<noteq> naptr + k) \<Longrightarrow>
   numActive (getStatesImpl_loop f pms wptr mptr vptr naptr b) a = numActive b a"
proof (induction pms arbitrary: wptr mptr vptr naptr b)
  case Nil
  show ?case by simp
next
  case (Cons pm pms)
  from Cons.prems have a0: "a \<noteq> naptr" by force
  have "\<forall>k < length pms. a \<noteq> Suc naptr + k"
  proof (intro allI impI)
    fix k assume "k < length pms"
    then have "Suc k < length (pm # pms)" by simp
    with Cons.prems have "a \<noteq> naptr + Suc k" by blast
    then show "a \<noteq> Suc naptr + k" by simp
  qed
  from Cons.IH [OF this] a0 show ?case by (simp add: getGMMStates_numActive)
qed

lemma getStatesImpl_loop_numActive_written:
  "k < length pms \<Longrightarrow>
   numActive (getStatesImpl_loop f pms wptr mptr vptr naptr b) (naptr + k) =
     int_of_mwSize (length (fst (pms ! k)))"
proof (induction pms arbitrary: wptr mptr vptr naptr b k)
  case Nil
  then show ?case by simp
next
  case (Cons pm pms)
  show ?case
  proof (cases k)
    case 0
    have "\<forall>j < length pms. naptr \<noteq> Suc naptr + j" by simp
    from getStatesImpl_loop_numActive_other [OF this] 0 show ?thesis
      by (simp add: getGMMStates_numActive)
  next
    case (Suc j)
    with Cons.prems have j: "j < length pms" by simp
    have "numActive (getStatesImpl_loop f (pm # pms) wptr mptr vptr naptr b) (naptr + Suc j) =
          numActive (getStatesImpl_loop f pms (Suc wptr) (Suc mptr) (Suc vptr) (Suc naptr)
                       (getGMMStates f (fst pm) wptr mptr vptr naptr b)) (Suc naptr + j)"
      by simp
    also have "\<dots> = int_of_mwSize (length (fst (pms ! j)))"
      using j by (rule Cons.IH)
    finally show ?thesis using Suc by simp
  qed
qed

lemma getStatesImpl_loop_weights_other:
  "(\<forall>k < length pms. \<forall>j. a \<noteq> wptr + k + j * mNumPixels f) \<Longrightarrow>
   weights (getStatesImpl_loop f pms wptr mptr vptr naptr b) a = weights b a"
proof (induction pms arbitrary: wptr mptr vptr naptr b)
  case Nil
  show ?case by simp
next
  case (Cons pm pms)
  from Cons.prems have here: "\<forall>j. a \<noteq> wptr + j * mNumPixels f" by force
  have "\<forall>k < length pms. \<forall>j. a \<noteq> Suc wptr + k + j * mNumPixels f"
  proof (intro allI impI)
    fix k j assume "k < length pms"
    then have "Suc k < length (pm # pms)" by simp
    with Cons.prems have "a \<noteq> wptr + Suc k + j * mNumPixels f" by blast
    then show "a \<noteq> Suc wptr + k + j * mNumPixels f" by simp
  qed
  from Cons.IH [OF this] getGMMStates_weights_other [OF here] show ?case by simp
qed

lemma getStatesImpl_loop_means_other:
  "(\<forall>k < length pms. \<forall>j. a \<noteq> mptr + k + j * mNumPixels f) \<Longrightarrow>
   means (getStatesImpl_loop f pms wptr mptr vptr naptr b) a = means b a"
proof (induction pms arbitrary: wptr mptr vptr naptr b)
  case Nil
  show ?case by simp
next
  case (Cons pm pms)
  from Cons.prems have here: "\<forall>j. a \<noteq> mptr + j * mNumPixels f" by force
  have "\<forall>k < length pms. \<forall>j. a \<noteq> Suc mptr + k + j * mNumPixels f"
  proof (intro allI impI)
    fix k j assume "k < length pms"
    then have "Suc k < length (pm # pms)" by simp
    with Cons.prems have "a \<noteq> mptr + Suc k + j * mNumPixels f" by blast
    then show "a \<noteq> Suc mptr + k + j * mNumPixels f" by simp
  qed
  from Cons.IH [OF this] getGMMStates_means_other [OF here] show ?case by simp
qed

lemma getStatesImpl_loop_variances_other:
  "(\<forall>k < length pms. \<forall>j. a \<noteq> vptr + k + j * mNumPixels f) \<Longrightarrow>
   variances (getStatesImpl_loop f pms wptr mptr vptr naptr b) a = variances b a"
proof (induction pms arbitrary: wptr mptr vptr naptr b)
  case Nil
  show ?case by simp
next
  case (Cons pm pms)
  from Cons.prems have here: "\<forall>j. a \<noteq> vptr + j * mNumPixels f" by force
  have "\<forall>k < length pms. \<forall>j. a \<noteq> Suc vptr + k + j * mNumPixels f"
  proof (intro allI impI)
    fix k j assume "k < length pms"
    then have "Suc k < length (pm # pms)" by simp
    with Cons.prems have "a \<noteq> vptr + Suc k + j * mNumPixels f" by blast
    then show "a \<noteq> Suc vptr + k + j * mNumPixels f" by simp
  qed
  from Cons.IH [OF this] getGMMStates_variances_other [OF here] show ?case by simp
qed

lemma later_pixels_elsewhere:
  fixes P :: nat
  assumes "q + Suc len \<le> P"
  shows "\<forall>k < len. \<forall>j. q + m * P \<noteq> Suc q + k + j * P"
proof (intro allI impI notI)
  fix k j assume k: "k < len" and eq: "q + m * P = Suc q + k + j * P"
  from assms k have "q < P" "Suc q + k < P" by simp_all
  from stride_unique [OF this eq] show False by simp
qed

lemma getStatesImpl_loop_weights_written:
  "wptr + length pms \<le> mNumPixels f \<Longrightarrow> k < length pms \<Longrightarrow> n < length (fst (pms ! k)) \<Longrightarrow>
   weights (getStatesImpl_loop f pms wptr mptr vptr naptr b) (wptr + k + n * mNumPixels f) =
     mWeight (fst (pms ! k) ! n)"
proof (induction pms arbitrary: wptr mptr vptr naptr b k)
  case Nil
  then show ?case by simp
next
  case (Cons pm pms)
  from Cons.prems(1) have P: "0 < mNumPixels f" by simp
  show ?case
  proof (cases k)
    case 0
    from Cons.prems(1) have "wptr + Suc (length pms) \<le> mNumPixels f" by simp
    from getStatesImpl_loop_weights_other [OF later_pixels_elsewhere [OF this]] 0 Cons.prems(3) P
    show ?thesis by (simp add: getGMMStates_weights_written)
  next
    case (Suc j)
    with Cons.prems have "Suc wptr + length pms \<le> mNumPixels f" "j < length pms"
      "n < length (fst (pms ! j))" by simp_all
    from Cons.IH [OF this] Suc show ?thesis by simp
  qed
qed

lemma getStatesImpl_loop_means_written:
  "mptr + length pms \<le> mNumPixels f \<Longrightarrow> k < length pms \<Longrightarrow> n < length (fst (pms ! k)) \<Longrightarrow>
   \<forall>pm \<in> set pms. \<forall>g \<in> set (fst pm). length (mMean g) = mNumChannels f \<Longrightarrow>
   c < mNumChannels f \<Longrightarrow>
   means (getStatesImpl_loop f pms wptr mptr vptr naptr b)
     (mptr + k + n * (mNumPixels f * mNumChannels f) + c * mNumPixels f) =
     mMean (fst (pms ! k) ! n) ! c"
proof (induction pms arbitrary: wptr mptr vptr naptr b k)
  case Nil
  then show ?case by simp
next
  case (Cons pm pms)
  from Cons.prems(1) have P: "0 < mNumPixels f" by simp
  show ?case
  proof (cases k)
    case 0
    from Cons.prems(1) have "mptr + Suc (length pms) \<le> mNumPixels f" by simp
    from later_pixels_elsewhere [OF this, of "n * mNumChannels f + c"]
    have "\<forall>k < length pms. \<forall>j.
            mptr + n * (mNumPixels f * mNumChannels f) + c * mNumPixels f
              \<noteq> Suc mptr + k + j * mNumPixels f"
      by (simp add: algebra_simps)
    from getStatesImpl_loop_means_other [OF this] 0 Cons.prems P
    show ?thesis by (simp add: getGMMStates_means_written)
  next
    case (Suc j)
    with Cons.prems have "Suc mptr + length pms \<le> mNumPixels f" "j < length pms"
      "n < length (fst (pms ! j))"
      "\<forall>pm \<in> set pms. \<forall>g \<in> set (fst pm). length (mMean g) = mNumChannels f"
      by simp_all
    from Cons.IH [OF this Cons.prems(5)] Suc show ?thesis by simp
  qed
qed

lemma getStatesImpl_loop_variances_written:
  "vptr + length pms \<le> mNumPixels f \<Longrightarrow> k < length pms \<Longrightarrow> n < length (fst (pms ! k)) \<Longrightarrow>
   \<forall>pm \<in> set pms. \<forall>g \<in> set (fst pm). length (mVariance g) = mNumChannels f \<Longrightarrow>
   c < mNumChannels f \<Longrightarrow>
   variances (getStatesImpl_loop f pms wptr mptr vptr naptr b)
     (vptr + k + n * (mNumPixels f * mNumChannels f) + c * mNumPixels f) =
     mVariance (fst (pms ! k) ! n) ! c"
proof (induction pms arbitrary: wptr mptr vptr naptr b k)
  case Nil
  then show ?case by simp
next
  case (Cons pm pms)
  from Cons.prems(1) have P: "0 < mNumPixels f" by simp
  show ?case
  proof (cases k)
    case 0
    from Cons.prems(1) have "vptr + Suc (length pms) \<le> mNumPixels f" by simp
    from later_pixels_elsewhere [OF this, of "n * mNumChannels f + c"]
    have "\<forall>k < length pms. \<forall>j.
            vptr + n * (mNumPixels f * mNumChannels f) + c * mNumPixels f
              \<noteq> Suc vptr + k + j * mNumPixels f"
      by (simp add: algebra_simps)
    from getStatesImpl_loop_variances_other [OF this] 0 Cons.prems P
    show ?thesis by (simp add: getGMMStates_variances_written)
  next
    case (Suc j)
    with Cons.prems have "Suc vptr + length pms \<le> mNumPixels f" "j < length pms"
      "n < length (fst (pms ! j))"
      "\<forall>pm \<in> set pms. \<forall>g \<in> set (fst pm). length (mVariance g) = mNumChannels f"
      by simp_all
    from Cons.IH [OF this Cons.prems(5)] Suc show ?thesis by simp
  qed
qed

subsection \<open>Reading the states back\<close>

lemma int_of_mwSize_small: "n < 2 ^ 31 \<Longrightarrow> nat (int_of_mwSize n) = n"
proof -
  assume "n < 2 ^ 31"
  then have "int n < 2 ^ 31" by (metis of_nat_less_iff of_nat_numeral of_nat_power)
  then have "(int n + 2 ^ 31) mod 2 ^ 32 = int n + 2 ^ 31" by simp
  then show ?thesis by (simp add: int_of_mwSize_def)
qed

lemma setGMMStates_loop_eq:
  "setGMMStates_loop C P b k wptr mptr vptr gmm =
     gmm @ map (\<lambda>n. WeightedGaussian_from_ptr C P (weights b) (wptr + n * P)
                       (means b) (mptr + n * (P * C)) (variances b) (vptr + n * (P * C))) [0..<k]"
proof (induction k arbitrary: wptr mptr vptr gmm)
  case 0
  show ?case by simp
next
  case (Suc k)
  have upt: "[0..<Suc k] = 0 # map Suc [0..<k]"
    by (simp add: upt_conv_Cons map_Suc_upt del: upt_Suc)
  show ?case
    by (simp only: setGMMStates_loop.simps Suc.IH upt)
       (simp add: comp_def algebra_simps)
qed

lemma setStatesImpl_loop_Inr:
  "0 \<le> i \<Longrightarrow> i + int (length pms) < 2 ^ 31 \<Longrightarrow>
   \<forall>k < length pms.
      \<exists>g. setGMMStates env f (fst (pms ! k)) (numActive b (nat i + k))
            (wptr + k) (mptr + k) (vptr + k) b = Inr g \<Longrightarrow>
   \<exists>vec. setStatesImpl_loop env f b pms i wptr mptr vptr = Inr vec \<and>
         length vec = length pms \<and>
         (\<forall>k < length pms.
            setGMMStates env f (fst (pms ! k)) (numActive b (nat i + k))
              (wptr + k) (mptr + k) (vptr + k) b = Inr (fst (vec ! k)) \<and>
            snd (vec ! k) = snd (pms ! k))"
proof (induction pms arbitrary: i wptr mptr vptr)
  case Nil
  show ?case by simp
next
  case (Cons pm pms)
  from Cons.prems(1,2) have i: "i \<noteq> 2 ^ 31 - 1"
    and next_i: "0 \<le> i + 1" "i + 1 + int (length pms) < 2 ^ 31"
    by simp_all
  from Cons.prems(1) have nat_i: "nat (i + 1) = Suc (nat i)" by simp
  from Cons.prems(3) obtain g0 where
    g0: "setGMMStates env f (fst pm) (numActive b (nat i)) wptr mptr vptr b = Inr g0"
    by fastforce
  have rest: "\<forall>k < length pms.
      \<exists>g. setGMMStates env f (fst (pms ! k)) (numActive b (nat (i + 1) + k))
            (Suc wptr + k) (Suc mptr + k) (Suc vptr + k) b = Inr g"
  proof (intro allI impI)
    fix k assume "k < length pms"
    then have "Suc k < length (pm # pms)" by simp
    with Cons.prems(3) show "\<exists>g. setGMMStates env f (fst (pms ! k)) (numActive b (nat (i + 1) + k))
            (Suc wptr + k) (Suc mptr + k) (Suc vptr + k) b = Inr g"
      unfolding nat_i by fastforce
  qed
  from Cons.IH [OF next_i rest] obtain vec where
    vec: "setStatesImpl_loop env f b pms (i + 1) (Suc wptr) (Suc mptr) (Suc vptr) = Inr vec"
         "length vec = length pms"
         "\<forall>k < length pms.
            setGMMStates env f (fst (pms ! k)) (numActive b (nat (i + 1) + k))
              (Suc wptr + k) (Suc mptr + k) (Suc vptr + k) b = Inr (fst (vec ! k)) \<and>
            snd (vec ! k) = snd (pms ! k)"
    by blast
  have run: "setStatesImpl_loop env f b (pm # pms) i wptr mptr vptr = Inr ((g0, snd pm) # vec)"
    using i vec(1) g0 by simp
  have nth: "setGMMStates env f (fst ((pm # pms) ! k)) (numActive b (nat i + k))
               (wptr + k) (mptr + k) (vptr + k) b = Inr (fst (((g0, snd pm) # vec) ! k)) \<and>
             snd (((g0, snd pm) # vec) ! k) = snd ((pm # pms) ! k)"
    if "k < length (pm # pms)" for k
  proof (cases k)
    case 0
    with g0 show ?thesis by simp
  next
    case (Suc j)
    with that have "j < length pms" by simp
    with vec(3) Suc nat_i show ?thesis by simp
  qed
  from run vec(2) nth show ?case by simp
qed

text \<open>
  With \<open>2^31\<close> pixels or more the import does not complete: the counter of its loop
  overflows, unless an allocation fails before.
\<close>

lemma setStatesImpl_loop_overflow:
  "0 \<le> i \<Longrightarrow> i < 2 ^ 31 \<Longrightarrow> 2 ^ 31 \<le> i + int (length pms) \<Longrightarrow>
   setStatesImpl_loop env f b pms i wptr mptr vptr \<in> {Inl UndefinedBehavior, Inl AllocationFailed}"
proof (induction pms arbitrary: i wptr mptr vptr)
  case Nil
  then show ?case by simp
next
  case (Cons pm pms)
  show ?case
  proof (cases "i = 2 ^ 31 - 1")
    case True
    then show ?thesis
      by (auto simp: setGMMStates_def split: sum.splits)
  next
    case False
    with Cons.prems have "0 \<le> i + 1" "i + 1 < 2 ^ 31" "2 ^ 31 \<le> i + 1 + int (length pms)"
      by simp_all
    from Cons.IH [OF this, of "Suc wptr" "Suc mptr" "Suc vptr"] False show ?thesis
      by (auto simp: setGMMStates_def split: sum.splits)
  qed
qed

lemma getStatesImpl_layout:
  assumes ready: "Ready env d" and p: "p < mNumPixels (mFtor d)"
  shows "numActive (getStatesImpl d b) p = int (length (fst (mGMMVec d ! p))) \<and>
         (\<forall>n < length (fst (mGMMVec d ! p)).
            weights (getStatesImpl d b) (p + n * mNumPixels (mFtor d)) =
              mWeight (fst (mGMMVec d ! p) ! n) \<and>
            (\<forall>c < mNumChannels (mFtor d).
               means (getStatesImpl d b)
                 (p + n * (mNumPixels (mFtor d) * mNumChannels (mFtor d)) + c * mNumPixels (mFtor d)) =
                 mMean (fst (mGMMVec d ! p) ! n) ! c \<and>
               variances (getStatesImpl d b)
                 (p + n * (mNumPixels (mFtor d) * mNumChannels (mFtor d)) + c * mNumPixels (mFtor d)) =
                 mVariance (fst (mGMMVec d ! p) ! n) ! c))"
proof -
  let ?f = "mFtor d" let ?P = "mNumPixels (mFtor d)" let ?C = "mNumChannels (mFtor d)"
  let ?gmm = "fst (mGMMVec d ! p)"
  from ready have ids: "map snd (mGMMVec d) = [0..<?P]"
    and wf: "\<forall>pm \<in> set (mGMMVec d). length (fst pm) < 2 ^ 31 \<and>
               (\<forall>g \<in> set (fst pm). length (mMean g) = ?C \<and> length (mVariance g) = ?C)"
    by (simp_all add: Ready_def Let_def list_all_iff)
  from ids have len: "length (mGMMVec d) = ?P" by (metis length_map length_upt diff_zero)
  have bound: "0 + length (mGMMVec d) \<le> ?P" using len by simp
  have pl: "p < length (mGMMVec d)" using p len by simp
  then have "mGMMVec d ! p \<in> set (mGMMVec d)" by simp
  with wf have small: "length ?gmm < 2 ^ 31" by blast
  have wfm: "\<forall>pm \<in> set (mGMMVec d). \<forall>g \<in> set (fst pm). length (mMean g) = ?C"
    and wfv: "\<forall>pm \<in> set (mGMMVec d). \<forall>g \<in> set (fst pm). length (mVariance g) = ?C"
    using wf by blast+
  have "numActive (getStatesImpl d b) p = int_of_mwSize (length ?gmm)"
    using getStatesImpl_loop_numActive_written [OF pl, of ?f 0 0 0 0 b]
    by (simp add: getStatesImpl_def)
  moreover from small have "int (length ?gmm) < 2 ^ 31"
    by (metis of_nat_less_iff of_nat_numeral of_nat_power)
  then have "int_of_mwSize (length ?gmm) = int (length ?gmm)"
    by (simp add: int_of_mwSize_def)
  ultimately have na: "numActive (getStatesImpl d b) p = int (length ?gmm)" by simp
  have w: "weights (getStatesImpl d b) (p + n * ?P) = mWeight (?gmm ! n)" if "n < length ?gmm" for n
    using getStatesImpl_loop_weights_written [OF bound pl that, of 0 0 0 b]
    by (simp add: getStatesImpl_def)
  have m: "means (getStatesImpl d b) (p + n * (?P * ?C) + c * ?P) = mMean (?gmm ! n) ! c"
    if "n < length ?gmm" "c < ?C" for n c
    using getStatesImpl_loop_means_written [OF bound pl that(1) wfm that(2), of 0 0 0 b]
    by (simp add: getStatesImpl_def)
  have v: "variances (getStatesImpl d b) (p + n * (?P * ?C) + c * ?P) = mVariance (?gmm ! n) ! c"
    if "n < length ?gmm" "c < ?C" for n c
    using getStatesImpl_loop_variances_written [OF bound pl that(1) wfv that(2), of 0 0 0 b]
    by (simp add: getStatesImpl_def)
  from na w m v show ?thesis by blast
qed

lemma round_trip_store:
  assumes ready: "Ready env d"
    and f2: "mNumPixels f2 = mNumPixels (mFtor d)" "mNumChannels f2 = mNumChannels (mFtor d)"
    and alloc: "\<forall>pm \<in> set (mGMMVec d). fst pm \<noteq> [] \<longrightarrow>
                  Allocates env (ImportedModel (length (fst pm)) (mNumChannels (mFtor d)))"
  shows "setStatesImpl_loop env f2 (getStatesImpl d b)
           (map (\<lambda>i. ([], i)) [0..<mNumPixels (mFtor d)]) 0 0 0 0 = Inr (mGMMVec d)"
proof -
  let ?f = "mFtor d" let ?P = "mNumPixels (mFtor d)" let ?C = "mNumChannels (mFtor d)"
  let ?B = "getStatesImpl d b"
  let ?fresh = "map (\<lambda>i. ([], i) :: 'a PixelModel) [0..<?P]"
  from ready have ids: "map snd (mGMMVec d) = [0..<?P]"
    and wf: "\<forall>pm \<in> set (mGMMVec d). length (fst pm) < 2 ^ 31 \<and>
               (\<forall>g \<in> set (fst pm). length (mMean g) = ?C \<and> length (mVariance g) = ?C)"
    by (simp_all add: Ready_def Let_def list_all_iff)
  from ids have len: "length (mGMMVec d) = ?P" by (metis length_map length_upt diff_zero)
  have each: "setGMMStates env f2 [] (numActive ?B k) k k k ?B = Inr (fst (mGMMVec d ! k))"
    if k: "k < ?P" for k
  proof -
  let ?gmm = "fst (mGMMVec d ! k)"
  from k len have mem: "mGMMVec d ! k \<in> set (mGMMVec d)" by simp
  with wf have small: "length ?gmm < 2 ^ 31"
    and lens: "\<forall>g \<in> set ?gmm. length (mMean g) = ?C \<and> length (mVariance g) = ?C"
    by blast+
  have wfm: "\<forall>pm \<in> set (mGMMVec d). \<forall>g \<in> set (fst pm). length (mMean g) = ?C"
    and wfv: "\<forall>pm \<in> set (mGMMVec d). \<forall>g \<in> set (fst pm). length (mVariance g) = ?C"
    using wf by blast+
  have bound: "0 + length (mGMMVec d) \<le> ?P" using len by simp
  have kl: "k < length (mGMMVec d)" using k len by simp
  have na: "numActive ?B k = int_of_mwSize (length ?gmm)"
    using getStatesImpl_loop_numActive_written [OF kl, of ?f 0 0 0 0 b]
    by (simp add: getStatesImpl_def)
  have w: "weights ?B (k + n * ?P) = mWeight (?gmm ! n)" if "n < length ?gmm" for n
    using getStatesImpl_loop_weights_written [OF bound kl that, of 0 0 0 b]
    by (simp add: getStatesImpl_def)
  have m: "means ?B (k + n * (?P * ?C) + c * ?P) = mMean (?gmm ! n) ! c"
    if "n < length ?gmm" "c < ?C" for n c
    using getStatesImpl_loop_means_written [OF bound kl that(1) wfm that(2), of 0 0 0 b]
    by (simp add: getStatesImpl_def)
  have v: "variances ?B (k + n * (?P * ?C) + c * ?P) = mVariance (?gmm ! n) ! c"
    if "n < length ?gmm" "c < ?C" for n c
    using getStatesImpl_loop_variances_written [OF bound kl that(1) wfv that(2), of 0 0 0 b]
    by (simp add: getStatesImpl_def)
  have g: "WeightedGaussian_from_ptr ?C ?P (weights ?B) (k + n * ?P)
             (means ?B) (k + n * (?P * ?C)) (variances ?B) (k + n * (?P * ?C)) = ?gmm ! n"
    if n: "n < length ?gmm" for n
  proof -
    from n lens have lm: "length (mMean (?gmm ! n)) = ?C" and lv: "length (mVariance (?gmm ! n)) = ?C"
      by simp_all
    have "map (\<lambda>i. means ?B (k + n * (?P * ?C) + i * ?P)) [0..<?C] = mMean (?gmm ! n)"
      by (rule nth_equalityI) (simp_all add: lm m [OF n])
    moreover have "map (\<lambda>i. variances ?B (k + n * (?P * ?C) + i * ?P)) [0..<?C] = mVariance (?gmm ! n)"
      by (rule nth_equalityI) (simp_all add: lv v [OF n])
    ultimately show ?thesis
      by (simp add: WeightedGaussian_from_ptr_def WeightedGaussian_init_vec_def w [OF n])
  qed
  have loop: "map (\<lambda>n. WeightedGaussian_from_ptr ?C ?P (weights ?B) (k + n * ?P)
                       (means ?B) (k + n * (?P * ?C)) (variances ?B) (k + n * (?P * ?C)))
          [0..<length ?gmm] = ?gmm"
    by (rule nth_equalityI) (simp_all add: g)
  have count: "nat (int_of_mwSize (length ?gmm)) = length ?gmm"
    using small by (rule int_of_mwSize_small)
  have ok: "\<not> (0 < int_of_mwSize (length ?gmm) \<and>
               \<not> Allocates env (ImportedModel (nat (int_of_mwSize (length ?gmm))) ?C))"
  proof (cases "?gmm = []")
    case True
    then show ?thesis by (simp add: int_of_mwSize_def)
  next
    case False
    with alloc mem have "Allocates env (ImportedModel (length ?gmm) ?C)" by blast
    then show ?thesis by (simp add: count)
  qed
  from ok loop show ?thesis
    by (simp add: setGMMStates_def setGMMStates_loop_eq f2 na count)
  qed
  from ready have "?P < 2 ^ 31" by (simp add: Ready_def Let_def)
  then have small: "(0::int) + int (length ?fresh) < 2 ^ 31"
    by simp
  have all: "\<forall>k < length ?fresh.
      \<exists>g. setGMMStates env f2 (fst (?fresh ! k)) (numActive ?B (nat 0 + k))
            (0 + k) (0 + k) (0 + k) ?B = Inr g"
    using each by simp
  from setStatesImpl_loop_Inr [OF order_refl small all] obtain vec where
    run: "setStatesImpl_loop env f2 ?B ?fresh 0 0 0 0 = Inr vec"
    and lenv: "length vec = ?P"
    and nthv: "\<And>k. k < ?P \<Longrightarrow>
                 setGMMStates env f2 [] (numActive ?B k) k k k ?B = Inr (fst (vec ! k)) \<and>
                 snd (vec ! k) = k"
    by auto
  have "vec = mGMMVec d"
  proof (rule nth_equalityI)
    show "length vec = length (mGMMVec d)"
      by (simp add: lenv len)
    fix k assume "k < length vec"
    then have k: "k < ?P" by (simp add: lenv)
    have id: "snd (mGMMVec d ! k) = k"
      using ids len k by (metis nth_map nth_upt add_0)
    from nthv [OF k] each [OF k] id show "vec ! k = mGMMVec d ! k"
      by (simp add: prod_eq_iff)
  qed
  with run show ?thesis by simp
qed

lemma initializeImpl_functor:
  assumes "initializeImpl env d0 dims K iv iw vt mbr = Inr d2"
  shows "mFtor d2 =
           (mFtor d0)\<lparr>mGMMPtr := True, mDims := dims, mNumGaussians := K,
                      mNumPixels := mwSize_wrap env (dims ! 0 * dims ! 1),
                      mNumChannels := (if length dims > 2 then dims ! 2 else 1),
                      mInitialWeight := iw, mInitialVariance := iv,
                      mVarianceThreshold := vt, mMinimumBackgroundRatio := mbr\<rparr>"
  using assms
  by (auto simp: initializeImpl_def functor_setup_def setProperties_def Let_def
           split: sum.splits if_splits)

subsection \<open>Detectors that were initialised and stepped are ready\<close>

lemma update_loop_lengths:
  "update_loop ops pixel lr nc np i off g = Inr g' \<Longrightarrow>
   length (mMean g') = length (mMean g) \<and> length (mVariance g') = length (mVariance g)"
proof (induction ops pixel lr nc np i off g rule: update_loop.induct)
  case (1 ops pixel lr nc np i off g)
  show ?case
  proof (cases "i < nc")
    case False
    with "1.prems" show ?thesis by (simp add: update_loop.simps)
  next
    case True
    show ?thesis
    proof (cases "i < length (mMean g) \<and> i < length (mVariance g)")
      case False
      with True "1.prems" show ?thesis by (simp add: update_loop.simps [of _ _ _ _ _ i])
    next
      case inb: True
      from "1.prems" True inb "1.IH" [OF True inb refl refl refl]
      show ?thesis by (simp add: update_loop.simps [of _ _ _ _ _ i] Let_def)
    qed
  qed
qed

lemma update_lengths:
  "update ops g pixel lr nc np = Inr g' \<Longrightarrow>
   length (mMean g') = length (mMean g) \<and> length (mVariance g') = length (mVariance g)"
  by (auto simp: update_def split: sum.splits dest: update_loop_lengths)

lemma findMatchAndUpdate_channels:
  assumes ok: "channels_ok (mNumChannels f) gmm"
    and res: "findMatchAndUpdate env ops f gmm pixel = Inr (gmm', m')"
  shows "channels_ok (mNumChannels f) gmm'"
proof (cases "findMatch ops f gmm pixel = length gmm")
  case True
  from findMatchAndUpdate_unmatched [OF True res] obtain g sf where
    g: "gmm' = normalizeWeights ops
               ((if gmm \<noteq> [] \<and> length gmm = mNumGaussians f then butlast gmm else gmm) @ [g]) sf"
       "mMean g = map (\<lambda>i. pixel (i * mNumPixels f)) [0..<mNumChannels f]"
       "mVariance g = replicate (mNumChannels f) (mInitialVariance f)"
    by blast
  from ok have "channels_ok (mNumChannels f) (butlast gmm)"
    by (auto simp: channels_ok_def list_all_iff dest: in_set_butlastD)
  with ok g show ?thesis
    by (auto simp: channels_ok_def normalizeWeights_def scaleWeight_def list_all_iff)
next
  case False
  with findMatch_le [of ops f gmm pixel] have lt: "findMatch ops f gmm pixel < length gmm" by simp
  let ?m = "findMatch ops f gmm pixel"
  from refl lt res obtain g' xs1 xs2 where
    upd: "update ops (gmm ! ?m) pixel (mLearningRate f) (mNumChannels f) (mNumPixels f) = Inr g'"
    and split: "take ?m gmm = xs1 @ xs2"
    and gmm': "gmm' = normalizeWeights ops (xs1 @ g' # xs2 @ drop (Suc ?m) gmm)
                        (stat_div ops (stat_one ops)
                 (stat_add ops (stat_one ops)
                    (stat_mul ops (mLearningRate f)
                       (stat_sub ops (stat_one ops) (mWeight (gmm ! ?m))))))"
    by (rule findMatchAndUpdate_matched)
  from ok lt have "length (mMean (gmm ! ?m)) = mNumChannels f \<and>
                   length (mVariance (gmm ! ?m)) = mNumChannels f"
    by (simp add: channels_ok_def list_all_length)
  with update_lengths [OF upd]
  have g': "length (mMean g') = mNumChannels f \<and> length (mVariance g') = mNumChannels f" by simp
  have "set xs1 \<union> set xs2 \<subseteq> set gmm"
    using split by (metis set_append set_take_subset)
  moreover have "set (drop (Suc ?m) gmm) \<subseteq> set gmm" by (rule set_drop_subset)
  ultimately show ?thesis
    using ok g'
    by (auto simp: gmm' channels_ok_def normalizeWeights_def scaleWeight_def list_all_iff)
qed

lemma detectForeground_channels:
  "channels_ok (mNumChannels f) gmm \<Longrightarrow> detectForeground env ops f gmm pixel = Inr (gmm', b) \<Longrightarrow>
   channels_ok (mNumChannels f) gmm'"
  using findMatchAndUpdate_channels [of f gmm env ops pixel]
  by (auto simp: detectForeground_def split: sum.splits prod.splits)

lemma stepImpl_pointwise:
  assumes "stepImpl env ops d inImage learningRate fgMask = Inr (d', fgMask')"
  shows "mFtor d' = setStepInput (mFtor d) inImage learningRate \<and>
         length (mGMMVec d') = length (mGMMVec d) \<and>
         (\<forall>p < mNumPixels (mFtor d).
            detectForeground env ops (setStepInput (mFtor d) inImage learningRate)
              (fst (mGMMVec d ! p)) (\<lambda>offset. inImage (p + offset)) =
              Inr (fst (mGMMVec d' ! p), fgMask' p) \<and>
            snd (mGMMVec d' ! p) = snd (mGMMVec d ! p)) \<and>
         (\<forall>p. \<not> p < mNumPixels (mFtor d) \<longrightarrow> mGMMVec d' ! p = mGMMVec d ! p)"
proof -
  let ?f = "setStepInput (mFtor d) inImage learningRate"
  let ?N = "mNumPixels (mFtor d)"
  have N: "mNumPixels ?f = ?N" and img: "mImage ?f = inImage" by (simp_all add: setStepInput_def)
  from assms N have run: "runAlgorithm env ops ?f 0 ?N (mGMMVec d, fgMask) = Inr (mGMMVec d', fgMask')"
    and f': "mFtor d' = ?f"
    by (auto simp: stepImpl_def functor_call_def Let_def split: sum.splits if_splits)
  have "fold (pixel_pass env ops ?f) [0..<?N] (Some (mGMMVec d, fgMask)) = Some (mGMMVec d', fgMask')"
    using runAlgorithm_fold [of 0 ?N env ops ?f "(mGMMVec d, fgMask)"] run by (simp add: completed_def)
  from fold_pixel_pass_upt [OF this] f' img show ?thesis by simp
qed

lemma stepImpl_Ready:
  assumes ready: "Ready env d"
    and K: "1 \<le> mNumGaussians (mFtor d)" "mNumGaussians (mFtor d) < 2 ^ 31"
    and cap: "\<forall>pm \<in> set (mGMMVec d). length (fst pm) \<le> mNumGaussians (mFtor d)"
    and step: "stepImpl env ops d inImage learningRate fgMask = Inr (d', fgMask')"
  shows "Ready env d'"
proof -
  let ?f = "setStepInput (mFtor d) inImage learningRate"
  let ?P = "mNumPixels (mFtor d)" and ?C = "mNumChannels (mFtor d)"
  from stepImpl_pointwise [OF step] have
    f': "mFtor d' = ?f"
    and len: "length (mGMMVec d') = length (mGMMVec d)"
    and pt: "\<And>p. p < ?P \<Longrightarrow>
            detectForeground env ops ?f (fst (mGMMVec d ! p)) (\<lambda>offset. inImage (p + offset)) =
              Inr (fst (mGMMVec d' ! p), fgMask' p) \<and>
            snd (mGMMVec d' ! p) = snd (mGMMVec d ! p)"
    by blast+
  from ready have ids: "map snd (mGMMVec d) = [0..<?P]"
    and ch: "\<forall>pm \<in> set (mGMMVec d). channels_ok ?C (fst pm)"
    by (simp_all add: Ready_def Let_def list_all_iff channels_ok_def)
  from ids have lenP: "length (mGMMVec d) = ?P" by (metis length_map length_upt diff_zero)
  have fC: "mNumChannels ?f = ?C" by (simp add: setStepInput_def)
  have ids': "map snd (mGMMVec d') = [0..<?P]"
  proof (rule nth_equalityI)
    show "length (map snd (mGMMVec d')) = length [0..<?P]" using len lenP by simp
    fix p assume "p < length (map snd (mGMMVec d'))"
    then have p: "p < ?P" using len lenP by simp
    with pt [OF p] ids len lenP show "map snd (mGMMVec d') ! p = [0..<?P] ! p"
      by (metis length_map nth_map)
  qed
  have each: "length (fst pm) < 2 ^ 31 \<and> channels_ok ?C (fst pm)" if "pm \<in> set (mGMMVec d')" for pm
  proof -
    from that obtain p where p: "p < length (mGMMVec d')" "pm = mGMMVec d' ! p"
      by (auto simp: in_set_conv_nth)
    with len lenP have pP: "p < ?P" by simp
    from pP lenP have mem: "mGMMVec d ! p \<in> set (mGMMVec d)" by simp
    from pt [OF pP] have det:
      "detectForeground env ops ?f (fst (mGMMVec d ! p)) (\<lambda>offset. inImage (p + offset)) =
         Inr (fst pm, fgMask' p)"
      using p(2) by simp
    have K': "mNumGaussians ?f = mNumGaussians (mFtor d)" by (simp add: setStepInput_def)
    from detectForeground_capacity [of ?f "fst (mGMMVec d ! p)" env ops _ "fst pm" "fgMask' p"] K cap mem det K'
    have "length (fst pm) \<le> mNumGaussians (mFtor d)" by simp
    with K(2) have "length (fst pm) < 2 ^ 31" by simp
    moreover from detectForeground_channels [of ?f "fst (mGMMVec d ! p)" env ops _ "fst pm" "fgMask' p"]
      ch mem det fC
    have "channels_ok ?C (fst pm)" by simp
    ultimately show ?thesis by simp
  qed
  from ready have "mGMMPtr (mFtor d)" "2 \<le> length (mDims (mFtor d))"
    "?P = mwSize_wrap env (mDims (mFtor d) ! 0 * mDims (mFtor d) ! 1)" "?P < 2 ^ 31"
    "?C = (if length (mDims (mFtor d)) > 2 then mDims (mFtor d) ! 2 else 1)"
    by (simp_all add: Ready_def Let_def)
  with ids' each show ?thesis
    by (simp add: Ready_def Let_def f' setStepInput_def list_all_iff channels_ok_def)
qed

lemma initializeImpl_Ready:
  assumes "initializeImpl env d0 dims K iv iw vt mbr = Inr d"
    and "mwSize_wrap env (dims ! 0 * dims ! 1) < 2 ^ 31"
  shows "Ready env d"
proof -
  from initializeImpl_result [OF assms(1)] initializeImpl_functor [OF assms(1)] assms(2)
  show ?thesis
    by (simp add: Ready_def Let_def list_all_iff comp_def)
qed

lemma steps_Ready:
  assumes "Ready env d"
    and "1 \<le> mNumGaussians (mFtor d)" "mNumGaussians (mFtor d) < 2 ^ 31"
    and "\<forall>pm \<in> set (mGMMVec d). length (fst pm) \<le> mNumGaussians (mFtor d)"
    and "steps env ops d frames fgMask = Inr (d', fgMask')"
  shows "Ready env d'"
  using assms
proof (induction frames arbitrary: d fgMask)
  case Nil
  then show ?case by simp
next
  case (Cons frame frames)
  from Cons.prems(5) obtain d1 mask1 where
    s1: "stepImpl env ops d (fst frame) (snd frame) fgMask = Inr (d1, mask1)"
    and rest: "steps env ops d1 frames mask1 = Inr (d', fgMask')"
    by (auto split: sum.splits)
  from stepImpl_Ready [OF Cons.prems(1-4) s1] have r1: "Ready env d1" .
  from stepImpl_capacity [OF Cons.prems(2,4) s1]
  have K: "mNumGaussians (mFtor d1) = mNumGaussians (mFtor d)"
    and cap: "\<forall>pm \<in> set (mGMMVec d1). length (fst pm) \<le> mNumGaussians (mFtor d)"
    by simp_all
  from Cons.IH [OF r1 _ _ _ rest] Cons.prems(2,3) K cap show ?case by simp
qed

lemma reachable_Ready:
  assumes "1 \<le> K" "K < 2 ^ 31"
    and "initializeImpl env d0 dims K iv iw vt mbr = Inr d"
    and "steps env ops d frames fgMask = Inr (d', fgMask')"
    and "mwSize_wrap env (dims ! 0 * dims ! 1) < 2 ^ 31"
  shows "Ready env d'"
proof -
  from initializeImpl_result [OF assms(3)] have
    K: "mNumGaussians (mFtor d) = K"
    and vec: "mGMMVec d = map (\<lambda>i. ([], i)) [0..<mNumPixels (mFtor d)]"
    by simp_all
  from vec have "\<forall>pm \<in> set (mGMMVec d). length (fst pm) \<le> mNumGaussians (mFtor d)" by auto
  from steps_Ready [OF initializeImpl_Ready [OF assms(3,5)] _ _ this assms(4)] assms(1,2) K
  show ?thesis by simp
qed

subsection \<open>The round trip\<close>

lemma round_trip_restores:
  assumes "Ready env d"
    and "initializeImpl env d0 (mDims (mFtor d)) K iv iw vt mbr = Inr d2"
    and "\<forall>pm \<in> set (mGMMVec d). fst pm \<noteq> [] \<longrightarrow>
           Allocates env (ImportedModel (length (fst pm)) (mNumChannels (mFtor d)))"
  shows "setStatesImpl env d2 (getStatesImpl d b) = Inr (d2\<lparr>mGMMVec := mGMMVec d\<rparr>)"
proof -
  from assms(1) have
    P: "mNumPixels (mFtor d) = mwSize_wrap env (mDims (mFtor d) ! 0 * mDims (mFtor d) ! 1)"
    and C: "mNumChannels (mFtor d) = (if length (mDims (mFtor d)) > 2 then mDims (mFtor d) ! 2 else 1)"
    by (simp_all add: Ready_def Let_def)
  from initializeImpl_result [OF assms(2)] P C have
    P2: "mNumPixels (mFtor d2) = mNumPixels (mFtor d)"
    and C2: "mNumChannels (mFtor d2) = mNumChannels (mFtor d)"
    and vec2: "mGMMVec d2 = map (\<lambda>i. ([], i)) [0..<mNumPixels (mFtor d)]"
    by simp_all
  show ?thesis
    using round_trip_store [OF assms(1) P2 C2 assms(3), of b]
    by (simp add: setStatesImpl_def vec2)
qed

text \<open>
  Claim C8, as the code has it. Let the detector be ready, with fewer than \<open>2^31\<close>
  pixels and fewer than \<open>2^31\<close> components in every model (the predicate \<open>Ready\<close>),
  and let the allocations of the import succeed for every model that is not empty.
  Exporting the states with \<^verbatim>\<open>getStates\<close> and importing them with \<^verbatim>\<open>setStates\<close> into a
  detector freshly initialised with the same dimensions completes and reproduces the
  store of pixel models exactly, whatever the arrays held before. The export writes,
  for the pixel \<open>p\<close>, the component \<open>n\<close> and the channel \<open>c\<close>, the count at \<open>p\<close>, the
  weight at \<open>p + n * numPixels\<close>, and the mean and the variance at
  \<open>p + n * numPixels * numChannels + c * numPixels\<close>. When the fresh detector was
  initialised with the same number of components, initial variance, initial weight,
  variance threshold and minimum background ratio as well, every step, and every
  non-empty sequence of steps, gives the same result (new detector and mask) on both
  detectors, in every arithmetic.
\<close>

theorem state_round_trip:
  assumes "Ready env d"
    and "initializeImpl env d0 (mDims (mFtor d)) K initialVariance initialWeight
           varianceThreshold minBGRatio = Inr d2"
    and "\<forall>pm \<in> set (mGMMVec d). fst pm \<noteq> [] \<longrightarrow>
           Allocates env (ImportedModel (length (fst pm)) (mNumChannels (mFtor d)))"
  shows "\<exists>d3. setStatesImpl env d2 (getStatesImpl d b) = Inr d3 \<and>
         mGMMVec d3 = mGMMVec d \<and>
         (\<forall>p < mNumPixels (mFtor d).
            numActive (getStatesImpl d b) p = int (length (fst (mGMMVec d ! p))) \<and>
            (\<forall>n < length (fst (mGMMVec d ! p)).
               weights (getStatesImpl d b) (p + n * mNumPixels (mFtor d)) =
                 mWeight (fst (mGMMVec d ! p) ! n) \<and>
               (\<forall>c < mNumChannels (mFtor d).
                  means (getStatesImpl d b)
                    (p + n * (mNumPixels (mFtor d) * mNumChannels (mFtor d)) +
                     c * mNumPixels (mFtor d)) = mMean (fst (mGMMVec d ! p) ! n) ! c \<and>
                  variances (getStatesImpl d b)
                    (p + n * (mNumPixels (mFtor d) * mNumChannels (mFtor d)) +
                     c * mNumPixels (mFtor d)) = mVariance (fst (mGMMVec d ! p) ! n) ! c))) \<and>
         (K = mNumGaussians (mFtor d) \<and> initialVariance = mInitialVariance (mFtor d) \<and>
          initialWeight = mInitialWeight (mFtor d) \<and>
          varianceThreshold = mVarianceThreshold (mFtor d) \<and>
          minBGRatio = mMinimumBackgroundRatio (mFtor d) \<longrightarrow>
            (\<forall>inImage learningRate fgMask.
               stepImpl env ops d3 inImage learningRate fgMask =
               stepImpl env ops d inImage learningRate fgMask) \<and>
            (\<forall>frame frames fgMask.
               steps env ops d3 (frame # frames) fgMask =
               steps env ops d (frame # frames) fgMask))"
proof -
  let ?d3 = "d2\<lparr>mGMMVec := mGMMVec d\<rparr>"
  from assms(1) have
    P: "mNumPixels (mFtor d) = mwSize_wrap env (mDims (mFtor d) ! 0 * mDims (mFtor d) ! 1)"
    and C: "mNumChannels (mFtor d) = (if length (mDims (mFtor d)) > 2 then mDims (mFtor d) ! 2 else 1)"
    and ptr: "mGMMPtr (mFtor d)"
    by (simp_all add: Ready_def Let_def)
  have restored: "setStatesImpl env d2 (getStatesImpl d b) = Inr ?d3"
    using assms by (rule round_trip_restores)
  have store: "mGMMVec ?d3 = mGMMVec d" by simp
  have ftor': "mFtor ?d3 = mFtor d2" by simp
  have step: "stepImpl env ops ?d3 inImage learningRate fgMask =
              stepImpl env ops d inImage learningRate fgMask"
    if same: "K = mNumGaussians (mFtor d) \<and> initialVariance = mInitialVariance (mFtor d) \<and>
          initialWeight = mInitialWeight (mFtor d) \<and>
          varianceThreshold = mVarianceThreshold (mFtor d) \<and>
          minBGRatio = mMinimumBackgroundRatio (mFtor d)"
    for inImage learningRate fgMask
  proof -
    have "setStepInput (mFtor d2) inImage learningRate = setStepInput (mFtor d) inImage learningRate"
      using same P C ptr
      by (cases "mFtor d"; cases "mFtor d0")
         (simp add: initializeImpl_functor [OF assms(2)] setStepInput_def)
    then show ?thesis by (simp add: stepImpl_def)
  qed
  have seq: "steps env ops ?d3 (frame # frames) fgMask = steps env ops d (frame # frames) fgMask"
    if "K = mNumGaussians (mFtor d) \<and> initialVariance = mInitialVariance (mFtor d) \<and>
          initialWeight = mInitialWeight (mFtor d) \<and>
          varianceThreshold = mVarianceThreshold (mFtor d) \<and>
          minBGRatio = mMinimumBackgroundRatio (mFtor d)"
    for frame frames fgMask
    using step [OF that] by simp
  from restored store step seq getStatesImpl_layout [OF assms(1), of _ b] show ?thesis
    by (intro exI [of _ ?d3]) simp
qed

theorem state_round_trip_witness:
  "Ready env_release two_pixel_detector \<and>
   initializeImpl env_release (ForegroundDetectorImpl_new scene_functor) [2, 1] 3
     36 (1 / 20) (25 / 4) (7 / 10) =
     Inr \<lparr>mFtor = scene_functor\<lparr>mDims := [2, 1], mNumPixels := 2\<rparr>, mGMMVec = [([], 0), ([], 1)]\<rparr> \<and>
   Allocates env_release (ImportedModel 1 1) \<and>
   setStatesImpl env_release
     \<lparr>mFtor = scene_functor\<lparr>mDims := [2, 1], mNumPixels := 2\<rparr>, mGMMVec = [([], 0), ([], 1)]\<rparr>
     (getStatesImpl two_pixel_detector empty_arrays) =
     Inr \<lparr>mFtor = scene_functor\<lparr>mDims := [2, 1], mNumPixels := 2\<rparr>,
          mGMMVec = [([gaussian1 1 128 36], 0), ([], 1)]\<rparr> \<and>
   stepImpl env_release exact_ops
     \<lparr>mFtor = scene_functor\<lparr>mDims := [2, 1], mNumPixels := 2\<rparr>,
      mGMMVec = [([gaussian1 1 128 36], 0), ([], 1)]\<rparr> two_pixel_frame (1 / 20) (\<lambda>a. True) =
   stepImpl env_release exact_ops two_pixel_detector two_pixel_frame (1 / 20) (\<lambda>a. True)"
proof -
  let ?fresh = "\<lparr>mFtor = scene_functor\<lparr>mDims := [2, 1], mNumPixels := 2\<rparr>,
                 mGMMVec = [([], 0), ([], 1 :: nat)]\<rparr>"
  have r: "Ready env_release two_pixel_detector"
    by (simp add: Ready_def fixture_defs mwSize_wrap_def upt_2)
  have dims: "mDims (mFtor two_pixel_detector) = [2, 1]"
    by (simp add: fixture_defs)
  have init: "initializeImpl env_release (ForegroundDetectorImpl_new scene_functor)
      (mDims (mFtor two_pixel_detector)) 3 36 (1 / 20) (25 / 4) (7 / 10) = Inr ?fresh"
    unfolding dims by (simp add: store_eval fixture_defs upt_2)
  have alloc: "\<forall>pm \<in> set (mGMMVec two_pixel_detector). fst pm \<noteq> [] \<longrightarrow>
           Allocates env_release
             (ImportedModel (length (fst pm)) (mNumChannels (mFtor two_pixel_detector)))"
    by (simp add: fixture_defs)
  have restored: "setStatesImpl env_release ?fresh (getStatesImpl two_pixel_detector empty_arrays) =
                    Inr (?fresh\<lparr>mGMMVec := mGMMVec two_pixel_detector\<rparr>)"
    using r init alloc by (rule round_trip_restores)
  from state_round_trip [OF r init alloc, where b = empty_arrays and ops = exact_ops] restored r init
  show ?thesis
    by (simp add: dims) (simp add: fixture_defs)
qed

text \<open>
  The claim asks for identical dimensions and \<^verbatim>\<open>numGaussians\<close> only. The one-pixel
  detector below was configured with the minimum background ratio 0.7 and holds the
  weights 0.8 and 0.2; its states are imported into a detector freshly initialised with
  the same dimensions and \<^verbatim>\<open>numGaussians\<close> but the ratio 0.95. The store is
  reproduced, and on the next frame (value 206, which matches the second component) the
  original detector reports foreground and the restored one background.
\<close>

theorem round_trip_needs_same_properties:
  "Ready env_release crossing_detector \<and>
   mDims (mFtor crossing_detector) = [1, 1] \<and> mNumGaussians (mFtor crossing_detector) = 3 \<and>
   initializeImpl env_release (ForegroundDetectorImpl_new scene_functor) [1, 1] 3
     36 (1 / 20) (25 / 4) (19 / 20) =
     Inr \<lparr>mFtor = scene_functor\<lparr>mMinimumBackgroundRatio := 19 / 20\<rparr>, mGMMVec = [([], 0)]\<rparr> \<and>
   setStatesImpl env_release
     \<lparr>mFtor = scene_functor\<lparr>mMinimumBackgroundRatio := 19 / 20\<rparr>, mGMMVec = [([], 0)]\<rparr>
     (getStatesImpl crossing_detector empty_arrays) =
     Inr \<lparr>mFtor = scene_functor\<lparr>mMinimumBackgroundRatio := 19 / 20\<rparr>,
          mGMMVec = mGMMVec crossing_detector\<rparr> \<and>
   stepImpl env_release exact_ops crossing_detector (\<lambda>a. 206) (1 / 20) (\<lambda>a. False) =
     Inr (\<lparr>mFtor = scene_functor\<lparr>mImage := \<lambda>a. 206\<rparr>,
           mGMMVec = [([gaussian1 (10 / 13) 128 36,
                        \<lparr>mWeight = 3 / 13, mMean = [2003 / 10], mVariance = [36]\<rparr>], 0)]\<rparr>,
          (\<lambda>a. False)(0 := True)) \<and>
   stepImpl env_release exact_ops
     \<lparr>mFtor = scene_functor\<lparr>mMinimumBackgroundRatio := 19 / 20\<rparr>,
      mGMMVec = mGMMVec crossing_detector\<rparr> (\<lambda>a. 206) (1 / 20) (\<lambda>a. False) =
     Inr (\<lparr>mFtor = scene_functor\<lparr>mMinimumBackgroundRatio := 19 / 20, mImage := \<lambda>a. 206\<rparr>,
           mGMMVec = [([gaussian1 (10 / 13) 128 36,
                        \<lparr>mWeight = 3 / 13, mMean = [2003 / 10], mVariance = [36]\<rparr>], 0)]\<rparr>,
          (\<lambda>a. False)(0 := False))"
proof -
  let ?fresh = "\<lparr>mFtor = scene_functor\<lparr>mMinimumBackgroundRatio := 19 / 20\<rparr>,
                 mGMMVec = [([], 0 :: nat)]\<rparr>"
  have r: "Ready env_release crossing_detector"
    by (simp add: Ready_def fixture_defs mwSize_wrap_def)
  have dims: "mDims (mFtor crossing_detector) = [1, 1]"
    and K: "mNumGaussians (mFtor crossing_detector) = 3"
    by (simp_all add: fixture_defs)
  have init: "initializeImpl env_release (ForegroundDetectorImpl_new scene_functor)
      (mDims (mFtor crossing_detector)) 3 36 (1 / 20) (25 / 4) (19 / 20) = Inr ?fresh"
    unfolding dims by (simp add: store_eval fixture_defs)
  have alloc: "\<forall>pm \<in> set (mGMMVec crossing_detector). fst pm \<noteq> [] \<longrightarrow>
           Allocates env_release
             (ImportedModel (length (fst pm)) (mNumChannels (mFtor crossing_detector)))"
    by (simp add: fixture_defs)
  have restored: "setStatesImpl env_release ?fresh (getStatesImpl crossing_detector empty_arrays) =
                    Inr (?fresh\<lparr>mGMMVec := mGMMVec crossing_detector\<rparr>)"
    using r init alloc by (rule round_trip_restores)
  have orig: "stepImpl env_release exact_ops crossing_detector (\<lambda>a. 206) (1 / 20) (\<lambda>a. False) =
     Inr (\<lparr>mFtor = scene_functor\<lparr>mImage := \<lambda>a. 206\<rparr>,
           mGMMVec = [([gaussian1 (10 / 13) 128 36,
                        \<lparr>mWeight = 3 / 13, mMean = [2003 / 10], mVariance = [36]\<rparr>], 0)]\<rparr>,
          (\<lambda>a. False)(0 := True))"
    by (simp add: store_eval kernel_eval fixture_defs)
  have rest: "stepImpl env_release exact_ops
     \<lparr>mFtor = scene_functor\<lparr>mMinimumBackgroundRatio := 19 / 20\<rparr>,
      mGMMVec = mGMMVec crossing_detector\<rparr> (\<lambda>a. 206) (1 / 20) (\<lambda>a. False) =
     Inr (\<lparr>mFtor = scene_functor\<lparr>mMinimumBackgroundRatio := 19 / 20, mImage := \<lambda>a. 206\<rparr>,
           mGMMVec = [([gaussian1 (10 / 13) 128 36,
                        \<lparr>mWeight = 3 / 13, mMean = [2003 / 10], mVariance = [36]\<rparr>], 0)]\<rparr>,
          (\<lambda>a. False)(0 := False))"
    by (simp add: store_eval kernel_eval fixture_defs)
  from r dims K init [unfolded dims] restored orig rest show ?thesis by simp
qed

end
